theory Spec2Isabelle
  imports Complex_Main "HOL-Library.Log_Nat" "HOL-Library.AList"
begin

section \<open>Flood risk tool (\<^verbatim>\<open>src/app.py\<close>): the embedding\<close>

text \<open>
  The tool is a single Python module. Its functions are translated one by one, keeping
  their names. Three things that Python leaves implicit are made explicit here.

  \<^item> Exceptions are values: a function that can raise returns \<open>py_error + 'a\<close>.
  \<^item> A Python \<^verbatim>\<open>float\<close> is an IEEE-754 binary64 number. Every finite one is a rational
    number, so floats are values of type \<open>rat\<close>, and every arithmetic operation of the
    source is the exact operation followed by the rounding \<open>fl\<close> (round to nearest,
    ties to even, 53 bits). Comparisons of floats are exact and need no rounding.
    Infinities, NaN and the sign of zero are not represented: no arithmetic operation of
    the program reaches them (all operands are below \<open>2 ^ 9\<close> in magnitude).
  \<^item> The random number generator is state: a function that draws from it takes the
    generator and returns the advanced generator together with its result.
\<close>

datatype py_error = KeyError | ValueError | TypeError | StopIteration | OSError


subsection \<open>Binary64 rounding\<close>

text \<open>Round to the nearest integer, ties to the even one.\<close>

definition rne :: "rat \<Rightarrow> int" where
  "rne x = (let n = \<lfloor>x\<rfloor>; d = x - of_int n in
     if d < 1/2 then n else if 1/2 < d then n + 1 else if even n then n else n + 1)"

text \<open>
  The binary exponent of a nonzero rational: \<open>expo x = e\<close> with
  \<open>2 powi e \<le> \<bar>x\<bar> < 2 powi (e + 1)\<close>, computed from the bit lengths of numerator and
  denominator.
\<close>

definition expo :: "rat \<Rightarrow> int" where
  "expo x = (let (p, q) = quotient_of \<bar>x\<bar>; e0 = bitlen p - bitlen q in
     if \<bar>x\<bar> < 2 powi e0 then e0 - 1 else e0)"

text \<open>
  Rounding to binary64: the significand has 53 bits, so a number of exponent \<open>e\<close> is
  rounded to a multiple of \<open>2 powi (e - 52)\<close>; below the normal range (\<open>e < - 1022\<close>)
  the spacing stays \<open>2 powi (- 1074)\<close>.
\<close>

definition fl :: "rat \<Rightarrow> rat" where
  "fl x = (if x = 0 then 0 else
     let e = max (expo x) (- 1022)
     in of_int (rne (x * 2 powi (52 - e))) * 2 powi (e - 52))"

text \<open>Half a unit in the last place of the binary64 numbers between 256 and 512.\<close>

definition ulp44 :: rat where
  "ulp44 = 2 powi (- 44)"

definition fadd :: "rat \<Rightarrow> rat \<Rightarrow> rat" where
  "fadd x y = fl (x + y)"

definition fsub :: "rat \<Rightarrow> rat \<Rightarrow> rat" where
  "fsub x y = fl (x - y)"

definition fmul :: "rat \<Rightarrow> rat \<Rightarrow> rat" where
  "fmul x y = fl (x * y)"

definition fdiv :: "rat \<Rightarrow> rat \<Rightarrow> rat" where
  "fdiv x y = fl (x / y)"


subsection \<open>\<^verbatim>\<open>get_text_color\<close> (lines 11 to 16)\<close>

text \<open>
  \<^verbatim>\<open>int(s, 16)\<close> on a slice of at most two characters. Python strips white space on both
  sides, accepts one sign, and then wants hexadecimal digits (a prefix \<^verbatim>\<open>0x\<close> or an
  underscore needs at least three characters to be valid, so neither can occur here).
  Anything else raises \<^verbatim>\<open>ValueError\<close>. Characters are code points below 256.
\<close>

definition py_isspace :: "char \<Rightarrow> bool" where
  "py_isspace c = ((of_char c :: nat) \<in> {9, 10, 11, 12, 13, 32, 133, 160})"

definition hex_digit :: "char \<Rightarrow> nat option" where
  "hex_digit c = (let n = (of_char c :: nat) in
     if 48 \<le> n \<and> n \<le> 57 then Some (n - 48)
     else if 97 \<le> n \<and> n \<le> 102 then Some (n - 87)
     else if 65 \<le> n \<and> n \<le> 70 then Some (n - 55)
     else None)"

fun hex_digits :: "nat \<Rightarrow> string \<Rightarrow> nat option" where
  "hex_digits acc [] = Some acc"
| "hex_digits acc (c # cs) =
     (case hex_digit c of None \<Rightarrow> None | Some d \<Rightarrow> hex_digits (16 * acc + d) cs)"

definition strip :: "string \<Rightarrow> string" where
  "strip s = rev (dropWhile py_isspace (rev (dropWhile py_isspace s)))"

definition int16 :: "string \<Rightarrow> py_error + int" where
  "int16 s =
     (let t = strip s;
          (sgn, ds) = (case t of
             [] \<Rightarrow> (1, [])
           | c # cs \<Rightarrow> if c = CHR ''-'' then (- 1, cs)
                      else if c = CHR ''+'' then (1, cs) else (1, t))
      in if ds = [] then Inl ValueError
         else case hex_digits 0 ds of
                None \<Rightarrow> Inl ValueError
              | Some n \<Rightarrow> Inr (sgn * int n))"

text \<open>The slice \<^verbatim>\<open>s[i:j]\<close> for \<open>0 \<le> i \<le> j\<close>: it never raises and may be short.\<close>

definition slice :: "string \<Rightarrow> nat \<Rightarrow> nat \<Rightarrow> string" where
  "slice s i j = take (j - i) (drop i s)"

text \<open>
  The luminance as the source computes it, left to right, every operation rounded:
  \<^verbatim>\<open>(0.299 * r + 0.587 * g + 0.114 * b) / 255\<close>. The decimal literals denote the nearest
  binary64 numbers; the integers \<open>r\<close>, \<open>g\<close>, \<open>b\<close> and 255 convert exactly.
\<close>

definition luminance :: "int \<Rightarrow> int \<Rightarrow> int \<Rightarrow> rat" where
  "luminance r g b =
     fdiv (fadd (fadd (fmul (fl (299/1000)) (of_int r)) (fmul (fl (587/1000)) (of_int g)))
                (fmul (fl (114/1000)) (of_int b)))
          255"

definition get_text_color :: "string \<Rightarrow> py_error + string" where
  "get_text_color bg_color =
     (case int16 (slice bg_color 1 3) of Inl e \<Rightarrow> Inl e | Inr r \<Rightarrow>
      case int16 (slice bg_color 3 5) of Inl e \<Rightarrow> Inl e | Inr g \<Rightarrow>
      case int16 (slice bg_color 5 7) of Inl e \<Rightarrow> Inl e | Inr b \<Rightarrow>
        Inr (if 1/2 < luminance r g b then ''black'' else ''white''))"

text \<open>
  The contrast rule as the specification words it, in exact arithmetic over the decoded
  channels of a colour \<^verbatim>\<open>#rrggbb\<close>: \<open>L = (0.299 R + 0.587 G + 0.114 B) / 255\<close>, black
  when \<open>L > 0.5\<close>, white otherwise.
\<close>

definition is_hex :: "char \<Rightarrow> bool" where
  "is_hex c = (hex_digit c \<noteq> None)"

definition is_hex_color :: "string \<Rightarrow> bool" where
  "is_hex_color s = (length s = 7 \<and> hd s = CHR ''#'' \<and> list_all is_hex (tl s))"

definition channel :: "string \<Rightarrow> nat \<Rightarrow> int" where
  "channel s i = int (16 * the (hex_digit (s ! i)) + the (hex_digit (s ! (i + 1))))"

definition spec_luminance :: "string \<Rightarrow> rat" where
  "spec_luminance s =
     (299/1000 * of_int (channel s 1) + 587/1000 * of_int (channel s 3)
        + 114/1000 * of_int (channel s 5)) / 255"

definition spec_text_color :: "string \<Rightarrow> string" where
  "spec_text_color s = (if 1/2 < spec_luminance s then ''black'' else ''white'')"


subsection \<open>\<^verbatim>\<open>get_risk_class\<close> (lines 30 to 36)\<close>

text \<open>
  The thresholds 0.5 and 1.0 are binary64 numbers, so they are the rationals 1/2 and 1.
  A depth is a finite number: the program classifies what \<^verbatim>\<open>get_flood_depth\<close> has drawn.
\<close>

definition get_risk_class :: "rat \<Rightarrow> string \<times> string" where
  "get_risk_class depth =
     (if depth < 1/2 then (''Low'', ''#50d890'')
      else if depth \<le> 1 then (''Medium'', ''#ffc26f'')
      else (''High'', ''#ff595e''))"


subsection \<open>\<^verbatim>\<open>make_flood_table_rows\<close> (lines 39 to 49)\<close>

text \<open>
  The format \<^verbatim>\<open>f"{depth:.2f}"\<close> prints the exact value of the float rounded to two
  decimals, ties to even, with a minus sign for every negative value (also when the
  digits are all zero).
\<close>

definition digit_char :: "nat \<Rightarrow> char" where
  "digit_char n = ''0123456789'' ! (n mod 10)"

fun show_nat :: "nat \<Rightarrow> string" where
  "show_nat n = (if n < 10 then [digit_char n] else show_nat (n div 10) @ [digit_char n])"

definition format_2f :: "rat \<Rightarrow> string" where
  "format_2f d =
     (let n = nat (rne (\<bar>d\<bar> * 100))
      in (if d < 0 then ''-'' else '''') @ show_nat (n div 100) @ ''.''
           @ [digit_char (n div 10), digit_char n])"

record row =
  Scenario :: string
  Flood_Depth :: string
  Risk_Level :: string
  Color :: string

definition make_row :: "string \<times> rat \<Rightarrow> row" where
  "make_row sd =
     (let (scenario, depth) = sd; (risk, color) = get_risk_class depth
      in \<lparr>Scenario = scenario, Flood_Depth = format_2f depth,
          Risk_Level = risk, Color = color\<rparr>)"

definition make_flood_table_rows :: "rat \<Rightarrow> rat \<Rightarrow> row list" where
  "make_flood_table_rows baseline rcp85 =
     map make_row (zip [''Baseline'', ''RCP8.5''] [baseline, rcp85])"

text \<open>
  What "a string with exactly two decimal places" means: an optional minus sign, at
  least one digit, a point, and exactly two digits.
\<close>

definition is_digit :: "char \<Rightarrow> bool" where
  "is_digit c = (c \<in> set ''0123456789'')"

definition two_decimals :: "string \<Rightarrow> bool" where
  "two_decimals s =
     (case rev s of
        d2 # d1 # p # ip \<Rightarrow>
          is_digit d2 \<and> is_digit d1 \<and> p = CHR ''.'' \<and>
          (let ds = (case rev ip of [] \<Rightarrow> [] | c # cs \<Rightarrow> if c = CHR ''-'' then cs else c # cs)
           in ds \<noteq> [] \<and> list_all is_digit ds)
      | _ \<Rightarrow> False)"


text \<open>
  The number that such a string denotes: the digits are read in base ten, the last two
  count as hundredths, a leading minus sign negates.
\<close>

definition read_nat :: "string \<Rightarrow> nat" where
  "read_nat s = foldl (\<lambda>acc c. 10 * acc + (of_char c - 48)) 0 s"

definition decimal_value :: "string \<Rightarrow> rat" where
  "decimal_value s =
     (let (neg, t) = (case s of [] \<Rightarrow> (False, [])
                      | c # cs \<Rightarrow> if c = CHR ''-'' then (True, cs) else (False, s));
          v = of_nat (read_nat (filter (\<lambda>c. c \<noteq> CHR ''.'') t)) / 100
      in if neg then - v else v)"


subsection \<open>\<^verbatim>\<open>highlight_risk\<close> (lines 52 to 54)\<close>

text \<open>
  \<^verbatim>\<open>next(...)\<close> takes the first row of the table with the scenario of \<open>row\<close> and raises
  \<^verbatim>\<open>StopIteration\<close> when there is none.
\<close>

definition highlight_risk :: "row \<Rightarrow> row list \<Rightarrow> py_error + string list" where
  "highlight_risk row table_rows =
     (case find (\<lambda>r. Scenario r = Scenario row) table_rows of
        None \<Rightarrow> Inl StopIteration
      | Some r \<Rightarrow> Inr ['''', '''', ''color: '' @ Color r @ ''; font-weight: bold;''])"


subsection \<open>\<^verbatim>\<open>get_flood_depth\<close> (lines 57 to 58) and the random number generator\<close>

text \<open>
  The generator is the sequence of the integers it will produce, each read as 53 bits.
  \<^verbatim>\<open>random.random()\<close> takes the next one, \<open>k\<close>, and returns \<open>k / 2 ^ 53\<close>;
  \<^verbatim>\<open>random.uniform(a, b)\<close> is \<^verbatim>\<open>a + (b - a) * random()\<close> in float arithmetic.
\<close>

type_synonym rng = "nat \<Rightarrow> int"

definition random_random :: "rng \<Rightarrow> rat \<times> rng" where
  "random_random g = (of_int (g 0 mod 2 ^ 53) / 2 ^ 53, \<lambda>n. g (Suc n))"

definition random_uniform :: "rat \<Rightarrow> rat \<Rightarrow> rng \<Rightarrow> rat \<times> rng" where
  "random_uniform a b g =
     (let (u, g') = random_random g in (fadd a (fmul (fsub b a) u), g'))"

text \<open>A Python \<^verbatim>\<open>str\<close> that comes from outside is a list of Unicode code points.\<close>

type_synonym ustring = "nat list"

definition ustr :: "string \<Rightarrow> ustring" where
  "ustr s = map of_char s"

definition get_flood_depth :: "ustring \<Rightarrow> 'f \<Rightarrow> 'f \<Rightarrow> rng \<Rightarrow> (rat \<times> rat) \<times> rng" where
  "get_flood_depth postal_code lat lon g =
     (let (d1, g1) = random_uniform 0 (3/2) g;
          (d2, g2) = random_uniform 0 (3/2) g1
      in ((d1, d2), g2))"


subsection \<open>\<^verbatim>\<open>load_data\<close> (lines 19 to 27)\<close>

text \<open>
  The data file holds a JSON array of objects. A field value is a scalar here; an object
  is the list of its fields in order, and so is a Python \<^verbatim>\<open>dict\<close>: assigning to a key
  that is present replaces the value in place, a new key goes to the end
  (\<^const>\<open>AList.update\<close>). Python identifies the keys \<^verbatim>\<open>True\<close> and \<^verbatim>\<open>1\<close>
  (and \<^verbatim>\<open>False\<close> and \<^verbatim>\<open>0\<close>): \<open>pykey\<close> maps a value to the key it is stored under.
\<close>

datatype jval = JNull | JBool bool | JNum rat | JStr ustring

type_synonym jentry = "(string \<times> jval) list"

type_synonym store = "(jval \<times> jentry) list"

definition pykey :: "jval \<Rightarrow> jval" where
  "pykey v = (case v of JBool b \<Rightarrow> JNum (if b then 1 else 0) | _ \<Rightarrow> v)"

text \<open>
  The comprehension \<^verbatim>\<open>{entry['POSTAL']: entry for entry in data}\<close>; an entry without
  the field raises \<^verbatim>\<open>KeyError\<close>.
\<close>

fun dict_of :: "jentry list \<Rightarrow> store \<Rightarrow> py_error + store" where
  "dict_of [] acc = Inr acc"
| "dict_of (entry # data) acc =
     (case map_of entry ''POSTAL'' of
        None \<Rightarrow> Inl KeyError
      | Some k \<Rightarrow> dict_of data (AList.update (pykey k) entry acc))"

text \<open>The loop over \<^verbatim>\<open>postal_dict.values()\<close>: two draws for each entry, in order.\<close>

fun assign_flags :: "store \<Rightarrow> rng \<Rightarrow> store \<times> rng" where
  "assign_flags [] g = ([], g)"
| "assign_flags ((k, entry) # rest) g =
     (let (u1, g1) = random_random g;
          entry1 = AList.update ''IS_FLOOD_PRONE'' (JBool (u1 < fl (15/100))) entry;
          (u2, g2) = random_random g1;
          entry2 = AList.update ''IS_FLOOD_HOTSPOT'' (JBool (u2 < fl (10/100))) entry1;
          (rest', g') = assign_flags rest g2
      in ((k, entry2) # rest', g'))"

text \<open>
  The body of \<^verbatim>\<open>load_data\<close>. Its source is the content of the data file: either the
  error that opening, decompressing or parsing it raises, or the parsed array.
\<close>

definition load_data :: "py_error + jentry list \<Rightarrow> rng \<Rightarrow> (py_error + store) \<times> rng" where
  "load_data src g =
     (case src of
        Inl e \<Rightarrow> (Inl e, g)
      | Inr data \<Rightarrow>
          (case dict_of data [] of
             Inl e \<Rightarrow> (Inl e, g)
           | Inr postal_dict \<Rightarrow>
               (let (postal_dict', g') = assign_flags postal_dict g
                in (Inr postal_dict', g'))))"

text \<open>
  The decorator \<^verbatim>\<open>@st.cache_data\<close> memoises the function, which has no argument: the
  first call that returns stores its value, every later call returns the stored value
  and does not run the body. A call that raises stores nothing. The state of the
  application is the cache and the session of the user.
\<close>

record session =
  postal_search :: ustring
  last_search :: ustring

record app =
  cache :: "store option"
  session_state :: session

definition load_data_cached ::
    "py_error + jentry list \<Rightarrow> app \<Rightarrow> rng \<Rightarrow> (py_error + store) \<times> app \<times> rng" where
  "load_data_cached src a g =
     (case cache a of
        Some postal_dict \<Rightarrow> (Inr postal_dict, a, g)
      | None \<Rightarrow>
          (case load_data src g of
             (Inl e, g') \<Rightarrow> (Inl e, a, g')
           | (Inr postal_dict, g') \<Rightarrow> (Inr postal_dict, a\<lparr>cache := Some postal_dict\<rparr>, g')))"


subsection \<open>\<^verbatim>\<open>main\<close> (lines 61 to 291)\<close>

text \<open>
  \<^verbatim>\<open>re.match(r'^\d{6}$', postal_code)\<close>. On a \<^verbatim>\<open>str\<close>, the class \<^verbatim>\<open>\d\<close> is every
  Unicode decimal digit: the ten ASCII digits and the decimal digits of other scripts,
  whose table is part of the Python runtime and is the parameter \<open>nd\<close> here. Without
  the flag \<^verbatim>\<open>MULTILINE\<close>, \<^verbatim>\<open>$\<close> matches at the end of the string and also just before
  a newline that ends the string.
\<close>

definition re_digit :: "(nat \<Rightarrow> bool) \<Rightarrow> nat \<Rightarrow> bool" where
  "re_digit nd c = (48 \<le> c \<and> c \<le> 57 \<or> 127 < c \<and> nd c)"

definition re_match_postal :: "(nat \<Rightarrow> bool) \<Rightarrow> ustring \<Rightarrow> bool" where
  "re_match_postal nd s =
     (6 \<le> length s \<and> list_all (re_digit nd) (take 6 s)
        \<and> (drop 6 s = [] \<or> drop 6 s = [10]))"

text \<open>
  The branch of line 175, where the postal code is a key of the store (lines 176 to
  285). What it computes from the entry is modelled in the order of the source, with
  every exception the source itself can raise: the two coordinates (a missing field
  raises \<^verbatim>\<open>KeyError\<close>, \<^verbatim>\<open>float\<close> raises what it raises), the two depths drawn by
  \<^verbatim>\<open>get_flood_depth\<close>, the table rows and the table without the colours, the two
  flags, the address fields, the styles of the rows, the two badges, and the level and
  colour of the RCP8.5 depth for the marker and the circle. The calls into streamlit,
  pandas and folium take these values to the screen; what the libraries do with them is
  not modelled, and the page, the record of these values, is what the branch returns.

  The builtin \<^verbatim>\<open>float\<close> is a parameter, \<open>py_float\<close>: on a field value it gives the
  exception it raises or the float it returns. The program hands the two floats on and
  never computes with them, so their type is left open.
\<close>

definition getitem :: "jentry \<Rightarrow> string \<Rightarrow> py_error + jval" where
  "getitem entry k = (case map_of entry k of None \<Rightarrow> Inl KeyError | Some v \<Rightarrow> Inr v)"

text \<open>The truth value of a field value, as \<^verbatim>\<open>if\<close> takes it.\<close>

definition truthy :: "jval \<Rightarrow> bool" where
  "truthy v = (case v of JNull \<Rightarrow> False | JBool b \<Rightarrow> b | JNum r \<Rightarrow> r \<noteq> 0 | JStr s \<Rightarrow> s \<noteq> [])"

text \<open>
  \<^verbatim>\<open>df.style.apply(lambda r: highlight_risk(r, table_rows), axis=1)\<close>: the style of
  every row of the table, in order; an exception of \<^verbatim>\<open>highlight_risk\<close> ends it.
\<close>

fun apply_styles :: "row list \<Rightarrow> row list \<Rightarrow> py_error + string list list" where
  "apply_styles [] table_rows = Inr []"
| "apply_styles (r # rs) table_rows =
     (case highlight_risk r table_rows of
        Inl e \<Rightarrow> Inl e
      | Inr s \<Rightarrow>
          (case apply_styles rs table_rows of
             Inl e \<Rightarrow> Inl e
           | Inr ss \<Rightarrow> Inr (s # ss)))"

record 'f page =
  p_entry :: jentry
  p_lat :: 'f
  p_lon :: 'f
  p_rows :: "row list"
  p_table :: "(string \<times> string \<times> string) list"
  p_flood_prone :: bool
  p_flood_hotspot :: bool
  p_address :: jval
  p_road :: jval
  p_building :: jval
  p_styles :: "string list list"
  p_popup_risk :: string
  p_circle :: "string \<times> string"

definition main_found ::
    "(jval \<Rightarrow> py_error + 'f) \<Rightarrow> jentry \<Rightarrow> ustring \<Rightarrow> rng \<Rightarrow> (py_error + 'f page) \<times> rng" where
  "main_found py_float entry postal_code g =
     (case getitem entry ''LATITUDE'' of Inl e \<Rightarrow> (Inl e, g) | Inr v1 \<Rightarrow>
      case py_float v1 of Inl e \<Rightarrow> (Inl e, g) | Inr lat \<Rightarrow>
      case getitem entry ''LONGITUDE'' of Inl e \<Rightarrow> (Inl e, g) | Inr v2 \<Rightarrow>
      case py_float v2 of Inl e \<Rightarrow> (Inl e, g) | Inr lon \<Rightarrow>
        (let ((depth_baseline, depth_rcp85), g') = get_flood_depth postal_code lat lon g;
             table_rows = make_flood_table_rows depth_baseline depth_rcp85;
             df = map (\<lambda>r. (Scenario r, Flood_Depth r, Risk_Level r)) table_rows
         in
           case getitem entry ''IS_FLOOD_PRONE'' of Inl e \<Rightarrow> (Inl e, g')
           | Inr is_flood_prone \<Rightarrow>
           case getitem entry ''IS_FLOOD_HOTSPOT'' of Inl e \<Rightarrow> (Inl e, g')
           | Inr is_flood_hotspot \<Rightarrow>
           case getitem entry ''ADDRESS'' of Inl e \<Rightarrow> (Inl e, g') | Inr address \<Rightarrow>
           case getitem entry ''ROAD_NAME'' of Inl e \<Rightarrow> (Inl e, g') | Inr road \<Rightarrow>
           case getitem entry ''BUILDING'' of Inl e \<Rightarrow> (Inl e, g') | Inr building \<Rightarrow>
           case apply_styles table_rows table_rows of Inl e \<Rightarrow> (Inl e, g')
           | Inr styles \<Rightarrow>
             (Inr \<lparr>p_entry = entry, p_lat = lat, p_lon = lon,
                   p_rows = table_rows, p_table = df,
                   p_flood_prone = truthy is_flood_prone,
                   p_flood_hotspot = truthy is_flood_hotspot,
                   p_address = address, p_road = road,
                   p_building = (if building \<noteq> JStr (ustr ''NIL'') then building
                                 else JStr (ustr ''N/A'')),
                   p_styles = styles,
                   p_popup_risk = fst (get_risk_class depth_rcp85),
                   p_circle = get_risk_class depth_rcp85\<rparr>,
              g')))"

text \<open>
  The outcomes of one run of \<^verbatim>\<open>main\<close> that does not raise: the error message of line
  167, the page of the branch of line 175, the error message of line 287, the hint of
  line 291, or nothing at all. The inputs of a run are the text of the input box and
  whether the search button was pressed. A run that raises returns the exception, with
  the session and the generator as they are at that moment.
\<close>

datatype 'f outcome = InvalidFormat | Found "'f page" | NotFound | Prompt | Idle

definition clear_input :: "app \<Rightarrow> app" where
  "clear_input a = a\<lparr>session_state := \<lparr>postal_search = [], last_search = []\<rparr>\<rparr>"

definition main ::
    "(nat \<Rightarrow> bool) \<Rightarrow> (jval \<Rightarrow> py_error + 'f) \<Rightarrow> py_error + jentry list \<Rightarrow> app \<Rightarrow> rng
       \<Rightarrow> ustring \<Rightarrow> bool \<Rightarrow> (py_error + 'f outcome) \<times> app \<times> rng" where
  "main nd py_float src a g postal_code search =
     (case load_data_cached src a g of
        (Inl e, a1, g1) \<Rightarrow> (Inl e, a1, g1)
      | (Inr postal_dict, a1, g1) \<Rightarrow>
          (let ss1 = (session_state a1)\<lparr>postal_search := postal_code\<rparr>
           in if postal_code \<noteq> [] \<and> \<not> re_match_postal nd postal_code
              then (Inr InvalidFormat, a1\<lparr>session_state := ss1\<rparr>, g1)
              else
                (let trigger_search =
                       (search \<or> (postal_code \<noteq> [] \<and> postal_code \<noteq> last_search ss1
                                    \<and> length postal_code = 6))
                 in if trigger_search \<and> postal_code \<noteq> []
                    then
                      (let ss2 = ss1\<lparr>last_search := postal_code\<rparr>
                       in case map_of postal_dict (JStr postal_code) of
                            Some entry \<Rightarrow>
                              (case main_found py_float entry postal_code g1 of
                                 (Inl e, g2) \<Rightarrow> (Inl e, a1\<lparr>session_state := ss2\<rparr>, g2)
                               | (Inr page, g2) \<Rightarrow>
                                   (Inr (Found page), a1\<lparr>session_state := ss2\<rparr>, g2))
                          | None \<Rightarrow> (Inr NotFound, a1\<lparr>session_state := ss2\<rparr>, g1))
                    else if postal_code = []
                      then (Inr Prompt, a1\<lparr>session_state := ss1\<rparr>, g1)
                      else (Inr Idle, a1\<lparr>session_state := ss1\<rparr>, g1))))"

text \<open>
  Two notions for stating what the lookup does. The record that a run has found: the
  entry of its page, if it has come to a page. And the entries that the branch of line
  175 can show: those with the seven fields it reads and with coordinates that
  \<^verbatim>\<open>float\<close> accepts.
\<close>

definition found_entry :: "py_error + 'f outcome \<Rightarrow> jentry option" where
  "found_entry r = (case r of Inr (Found page) \<Rightarrow> Some (p_entry page) | _ \<Rightarrow> None)"

definition accepts :: "(jval \<Rightarrow> py_error + 'f) \<Rightarrow> jentry \<Rightarrow> string \<Rightarrow> bool" where
  "accepts py_float entry k =
     (case map_of entry k of
        None \<Rightarrow> False
      | Some v \<Rightarrow> (case py_float v of Inl e \<Rightarrow> False | Inr x \<Rightarrow> True))"

definition showable :: "(jval \<Rightarrow> py_error + 'f) \<Rightarrow> jentry \<Rightarrow> bool" where
  "showable py_float entry =
     (accepts py_float entry ''LATITUDE'' \<and> accepts py_float entry ''LONGITUDE''
      \<and> list_all (\<lambda>k. map_of entry k \<noteq> None)
           [''IS_FLOOD_PRONE'', ''IS_FLOOD_HOTSPOT'', ''ADDRESS'', ''ROAD_NAME'', ''BUILDING''])"


section \<open>Properties\<close>

subsection \<open>Rounding: error and range\<close>

lemma rne_floor: "rne x = \<lfloor>x\<rfloor> \<or> rne x = \<lfloor>x\<rfloor> + 1"
  by (simp add: rne_def Let_def)

lemma rne_err: "\<bar>of_int (rne x) - x\<bar> \<le> 1/2"
proof -
  define d where "d = x - of_int \<lfloor>x\<rfloor>"
  have d: "0 \<le> d" "d < 1" unfolding d_def by linarith+
  have x: "x = of_int \<lfloor>x\<rfloor> + d" by (simp add: d_def)
  have "rne x = (if d < 1/2 then \<lfloor>x\<rfloor> else if 1/2 < d then \<lfloor>x\<rfloor> + 1
                 else if even \<lfloor>x\<rfloor> then \<lfloor>x\<rfloor> else \<lfloor>x\<rfloor> + 1)"
    by (simp add: rne_def d_def Let_def)
  then have "of_int (rne x) - x = - d \<and> d \<le> 1/2
               \<or> of_int (rne x) - x = 1 - d \<and> 1/2 \<le> d"
    using x by (auto split: if_splits)
  then show ?thesis using d by auto
qed

lemma rne_of_int: "rne (of_int k) = k"
  by (simp add: rne_def)

lemma rne_le:
  assumes "x \<le> of_int k" shows "rne x \<le> k"
proof (cases "x = of_int k")
  case True
  then show ?thesis by (simp add: rne_of_int)
next
  case False
  with assms have "x < of_int k" by simp
  then have "\<lfloor>x\<rfloor> < k" by (simp add: floor_less_iff)
  then show ?thesis using rne_floor [of x] by auto
qed

lemma rne_ge:
  assumes "of_int k \<le> x" shows "k \<le> rne x"
proof -
  have "k \<le> \<lfloor>x\<rfloor>" using assms by (simp add: le_floor_iff)
  then show ?thesis using rne_floor [of x] by auto
qed

lemma powi2_pos: "0 < (2::rat) powi e"
  by (simp add: power_int_def)

lemma powi2_mono: "a \<le> b \<Longrightarrow> (2::rat) powi a \<le> 2 powi b"
  by (rule power_int_increasing) simp_all

lemma powi2_less_cancel: "(2::rat) powi a < 2 powi b \<Longrightarrow> a < b"
  using powi2_mono [of b a] by (cases "a < b") auto

lemma powi2_le_cancel: "(2::rat) powi a \<le> 2 powi b \<Longrightarrow> a \<le> b"
  using power_int_strict_increasing [of b a "2::rat"] by (cases "a \<le> b") auto

text \<open>The exponent is not too large: \<open>2 powi expo x\<close> is below \<open>\<bar>x\<bar>\<close>.\<close>

lemma expo_lower:
  assumes "x \<noteq> 0" shows "2 powi (expo x) \<le> \<bar>x\<bar>"
proof -
  obtain p q where pq: "quotient_of \<bar>x\<bar> = (p, q)" by (cases "quotient_of \<bar>x\<bar>")
  have q: "0 < q" using pq by (rule quotient_of_denom_pos)
  have x: "\<bar>x\<bar> = of_int p / of_int q" using pq by (rule quotient_of_div)
  have "0 < \<bar>x\<bar>" using assms by simp
  then have p: "0 < p" using q unfolding x by (simp add: zero_less_divide_iff)
  define bp bq where "bp = bitlen p" and "bq = bitlen q"
  have bp1: "1 \<le> bp" and bq1: "1 \<le> bq"
    using p q bitlen_eq_zero_iff [of p] bitlen_eq_zero_iff [of q]
      bitlen_nonneg [of p] bitlen_nonneg [of q]
    unfolding bp_def bq_def by linarith+
  have plo: "(2::rat) powi (bp - 1) \<le> of_int p"
  proof -
    have "2 ^ nat (bp - 1) \<le> p" using bitlen_bounds [OF p] by (simp add: bp_def)
    then have "(of_int (2 ^ nat (bp - 1)) :: rat) \<le> of_int p" by (simp only: of_int_le_iff)
    then show ?thesis using bp1 by (simp add: power_int_def)
  qed
  have qhi: "of_int q \<le> (2::rat) powi bq"
  proof -
    have "q < 2 ^ nat bq" using bitlen_bounds [OF q] by (simp add: bq_def)
    then have "(of_int q :: rat) < of_int (2 ^ nat bq)" by (simp only: of_int_less_iff)
    then show ?thesis using bq1 by (simp add: power_int_def)
  qed
  have low: "(2::rat) powi (bp - bq - 1) \<le> \<bar>x\<bar>"
  proof -
    have "(2::rat) powi (bp - bq - 1) = 2 powi (bp - 1) / 2 powi bq"
      by (simp add: power_int_diff)
    also have "\<dots> \<le> of_int p / 2 powi bq"
      using plo powi2_pos [of bq] by (simp add: divide_right_mono)
    also have "\<dots> \<le> of_int p / of_int q"
      using qhi p q by (simp add: divide_left_mono)
    finally show ?thesis by (simp add: x)
  qed
  show ?thesis
    using low by (simp add: expo_def pq bp_def bq_def Let_def not_less)
qed

text \<open>Below \<open>2 powi E\<close> in magnitude, rounding moves a number by at most half a unit in the last place.\<close>

lemma fl_abs_err:
  assumes "\<bar>x\<bar> \<le> 2 powi E" and "- 1022 \<le> E"
  shows "\<bar>fl x - x\<bar> \<le> 2 powi (E - 53)"
proof (cases "x = 0")
  case True
  then show ?thesis using powi2_pos [of "E - 53"] by (simp add: fl_def)
next
  case False
  define e where "e = max (expo x) (- 1022)"
  have "2 powi (expo x) \<le> (2::rat) powi E" using expo_lower [OF False] assms(1) by simp
  then have "expo x \<le> E" by (rule powi2_le_cancel)
  then have eE: "e \<le> E" using assms(2) by (simp add: e_def)
  define m where "m = x * 2 powi (52 - e)"
  have flx: "fl x = of_int (rne m) * 2 powi (e - 52)"
    using False by (simp add: fl_def e_def m_def Let_def)
  have xm: "x = m * 2 powi (e - 52)"
    by (simp add: m_def flip: power_int_add)
  have "fl x - x = (of_int (rne m) - m) * 2 powi (e - 52)"
    by (simp add: flx left_diff_distrib xm [symmetric])
  then have "\<bar>fl x - x\<bar> = \<bar>of_int (rne m) - m\<bar> * 2 powi (e - 52)"
    using powi2_pos [of "e - 52"] by (simp add: abs_mult)
  also have "\<dots> \<le> (1/2) * 2 powi (e - 52)"
    using rne_err [of m] powi2_pos [of "e - 52"] by (simp add: mult_right_mono)
  also have "\<dots> = 2 powi (e - 53)"
    by (simp add: power_int_diff)
  also have "\<dots> \<le> 2 powi (E - 53)"
    using eE by (simp add: powi2_mono)
  finally show ?thesis .
qed

lemma fl_nonneg:
  assumes "0 \<le> x" shows "0 \<le> fl x"
proof (cases "x = 0")
  case True then show ?thesis by (simp add: fl_def)
next
  case False
  define e where "e = max (expo x) (- 1022)"
  have "of_int 0 \<le> x * 2 powi (52 - e)" using assms powi2_pos [of "52 - e"] by simp
  then have "0 \<le> rne (x * 2 powi (52 - e))" by (rule rne_ge)
  then show ?thesis using False powi2_pos [of "e - 52"] by (simp add: fl_def e_def Let_def)
qed

text \<open>Rounding does not cross the binary64 number 1.5 from below.\<close>

lemma fl_le_3_2:
  assumes "0 \<le> x" and "x \<le> 3/2"
  shows "fl x \<le> 3/2"
proof (cases "x = 0")
  case True then show ?thesis by (simp add: fl_def)
next
  case False
  define e where "e = max (expo x) (- 1022)"
  have "2 powi (expo x) \<le> \<bar>x\<bar>" using False by (rule expo_lower)
  also have "\<bar>x\<bar> < 2 powi 1" using assms by simp
  finally have "expo x < 1" by (rule powi2_less_cancel)
  then have e0: "e \<le> 0" by (simp add: e_def)
  define K :: int where "K = 3 * 2 ^ nat (51 - e)"
  have K: "(of_int K :: rat) = 3/2 * 2 powi (52 - e)"
  proof -
    have "(2::rat) powi (52 - e) = 2 powi (51 - e) * 2"
      using power_int_add_1 [of "2::rat" "51 - e"] by (simp add: algebra_simps)
    then show ?thesis using e0 by (simp add: K_def power_int_def)
  qed
  have "x * 2 powi (52 - e) \<le> of_int K"
    unfolding K using assms(2) powi2_pos [of "52 - e"] by (simp add: mult_right_mono)
  then have "rne (x * 2 powi (52 - e)) \<le> K" by (rule rne_le)
  then have "(of_int (rne (x * 2 powi (52 - e))) :: rat) \<le> of_int K"
    by (simp only: of_int_le_iff)
  then have "of_int (rne (x * 2 powi (52 - e))) * 2 powi (e - 52)
               \<le> of_int K * (2::rat) powi (e - 52)"
    using powi2_pos [of "e - 52"] by (simp add: mult_right_mono)
  also have "of_int K * (2::rat) powi (e - 52) = 3/2"
    unfolding K by (simp flip: power_int_add)
  finally show ?thesis using False by (simp add: fl_def e_def Let_def)
qed

lemma fl_3_2: "fl (3/2) = 3/2"
  by code_simp

text \<open>The exponent is not too small either, so the significand has exactly 53 bits.\<close>

lemma expo_upper:
  assumes "x \<noteq> 0" shows "\<bar>x\<bar> < 2 powi (expo x + 1)"
proof -
  obtain p q where pq: "quotient_of \<bar>x\<bar> = (p, q)" by (cases "quotient_of \<bar>x\<bar>")
  have q: "0 < q" using pq by (rule quotient_of_denom_pos)
  have x: "\<bar>x\<bar> = of_int p / of_int q" using pq by (rule quotient_of_div)
  have "0 < \<bar>x\<bar>" using assms by simp
  then have p: "0 < p" using q unfolding x by (simp add: zero_less_divide_iff)
  define bp bq where "bp = bitlen p" and "bq = bitlen q"
  have bp1: "1 \<le> bp" and bq1: "1 \<le> bq"
    using p q bitlen_eq_zero_iff [of p] bitlen_eq_zero_iff [of q]
      bitlen_nonneg [of p] bitlen_nonneg [of q]
    unfolding bp_def bq_def by linarith+
  have phi: "of_int p < (2::rat) powi bp"
  proof -
    have "p < 2 ^ nat bp" using bitlen_bounds [OF p] by (simp add: bp_def)
    then have "(of_int p :: rat) < of_int (2 ^ nat bp)" by (simp only: of_int_less_iff)
    then show ?thesis using bp1 by (simp add: power_int_def)
  qed
  have qlo: "(2::rat) powi (bq - 1) \<le> of_int q"
  proof -
    have "2 ^ nat (bq - 1) \<le> q" using bitlen_bounds [OF q] by (simp add: bq_def)
    then have "(of_int (2 ^ nat (bq - 1)) :: rat) \<le> of_int q" by (simp only: of_int_le_iff)
    then show ?thesis using bq1 by (simp add: power_int_def)
  qed
  have up: "\<bar>x\<bar> < (2::rat) powi (bp - bq + 1)"
  proof -
    have qpos: "(0::rat) < of_int q" using q by simp
    have ppos: "(0::rat) \<le> of_int p" using p by simp
    have "of_int p / of_int q \<le> of_int p / (2::rat) powi (bq - 1)"
      by (rule divide_left_mono [OF qlo ppos mult_pos_pos [OF qpos powi2_pos]])
    also have "\<dots> < 2 powi bp / 2 powi (bq - 1)"
      using phi powi2_pos [of "bq - 1"] by (simp add: divide_strict_right_mono)
    also have "\<dots> = 2 powi (bp - bq + 1)"
      by (simp add: power_int_diff power_int_add)
    finally show ?thesis by (simp add: x)
  qed
  show ?thesis
    using up by (simp add: expo_def pq bp_def bq_def Let_def)
qed

text \<open>The rounding on numbers whose binary64 value is known.\<close>

lemma fl_examples:
  "fl (1/10) = 3602879701896397 / 36028797018963968"
  "fl (299/1000) = 5386305154335113 / 18014398509481984"
  "fl (1/2) = 1/2" "fl 1 = 1" "fl 255 = 255"
  by code_simp+


subsection \<open>The risk classifier\<close>

text \<open>
  Claim C1. For every depth \<open>d\<close> the classifier returns Low iff \<open>d < 0.5\<close>, Medium iff
  \<open>0.5 \<le> d \<le> 1.0\<close> and High iff \<open>d > 1.0\<close>; the boundary values 0.5 and 1.0 are Medium;
  and the colour goes with the level: \<^verbatim>\<open>#50d890\<close> with Low, \<^verbatim>\<open>#ffc26f\<close> with Medium,
  \<^verbatim>\<open>#ff595e\<close> with High, and with no other.
\<close>

theorem get_risk_class_bands:
  "(fst (get_risk_class d) = ''Low'' \<longleftrightarrow> d < 1/2)
   \<and> (fst (get_risk_class d) = ''Medium'' \<longleftrightarrow> 1/2 \<le> d \<and> d \<le> 1)
   \<and> (fst (get_risk_class d) = ''High'' \<longleftrightarrow> 1 < d)
   \<and> get_risk_class (1/2) = (''Medium'', ''#ffc26f'')
   \<and> get_risk_class 1 = (''Medium'', ''#ffc26f'')
   \<and> (snd (get_risk_class d) = ''#50d890'' \<longleftrightarrow> fst (get_risk_class d) = ''Low'')
   \<and> (snd (get_risk_class d) = ''#ffc26f'' \<longleftrightarrow> fst (get_risk_class d) = ''Medium'')
   \<and> (snd (get_risk_class d) = ''#ff595e'' \<longleftrightarrow> fst (get_risk_class d) = ''High'')"
  by (simp add: get_risk_class_def)

text \<open>
  Claim C9. Every negative depth is classified Low, with the colour \<^verbatim>\<open>#50d890\<close>: the
  classifier does not reject it.
\<close>

theorem get_risk_class_negative:
  "d < 0 \<Longrightarrow> get_risk_class d = (''Low'', ''#50d890'')"
  by (simp add: get_risk_class_def)

theorem get_risk_class_negative_witness:
  "(- 1/4 :: rat) < 0 \<and> get_risk_class (- 1/4) = (''Low'', ''#50d890'')"
  using get_risk_class_negative [of "- 1/4"] by simp


subsection \<open>The scenario generator\<close>

lemma random_random_range:
  "0 \<le> fst (random_random g) \<and> fst (random_random g) < 1"
proof -
  have "0 \<le> g 0 mod 2 ^ 53" and "g 0 mod 2 ^ 53 < 2 ^ 53" by simp_all
  then have "(of_int 0 :: rat) \<le> of_int (g 0 mod 2 ^ 53)"
    and "(of_int (g 0 mod 2 ^ 53) :: rat) < of_int (2 ^ 53)"
    by (simp_all only: of_int_le_iff of_int_less_iff)
  then show ?thesis by (simp add: random_random_def)
qed

lemma random_uniform_range:
  "0 \<le> fst (random_uniform 0 (3/2) g) \<and> fst (random_uniform 0 (3/2) g) \<le> 3/2"
proof -
  define u where "u = fst (random_random g)"
  have u: "0 \<le> u" "u < 1" using random_random_range [of g] by (simp_all add: u_def)
  define y where "y = fl (3/2 * u)"
  have arg: "0 \<le> 3/2 * u" "3/2 * u \<le> 3/2" using u by simp_all
  have y: "0 \<le> y" "y \<le> 3/2"
    unfolding y_def using arg by (simp_all only: fl_nonneg fl_le_3_2)
  have "fst (random_uniform 0 (3/2) g) = fl y"
    by (simp add: random_uniform_def fadd_def fmul_def fsub_def fl_3_2 u_def y_def
        split: prod.split)
  moreover have "0 \<le> fl y" using y(1) by (rule fl_nonneg)
  moreover have "fl y \<le> 3/2" using y by (rule fl_le_3_2)
  ultimately show ?thesis by simp
qed

text \<open>
  Claim C6. Both depths that \<^verbatim>\<open>get_flood_depth\<close> returns lie in the interval from 0 to
  1.5, whatever the arguments and the state of the generator; so neither is negative.
\<close>

theorem get_flood_depth_range:
  "0 \<le> fst (fst (get_flood_depth postal_code lat lon g))
   \<and> fst (fst (get_flood_depth postal_code lat lon g)) \<le> 3/2
   \<and> 0 \<le> snd (fst (get_flood_depth postal_code lat lon g))
   \<and> snd (fst (get_flood_depth postal_code lat lon g)) \<le> 3/2"
proof -
  obtain d1 g1 where 1: "random_uniform 0 (3/2) g = (d1, g1)"
    by (cases "random_uniform 0 (3/2) g")
  obtain d2 g2 where 2: "random_uniform 0 (3/2) g1 = (d2, g2)"
    by (cases "random_uniform 0 (3/2) g1")
  have "0 \<le> d1 \<and> d1 \<le> 3/2" using random_uniform_range [of g] by (simp add: 1)
  moreover have "0 \<le> d2 \<and> d2 \<le> 3/2" using random_uniform_range [of g1] by (simp add: 2)
  ultimately show ?thesis by (simp add: get_flood_depth_def 1 2)
qed

text \<open>
  Claim C8. The depths do not depend on the arguments: two calls from the same state of
  the generator return the same pair of depths (and leave the same state), whatever the
  postal codes and the coordinates.
\<close>

theorem get_flood_depth_ignores_arguments:
  "get_flood_depth p1 lat1 lon1 g = get_flood_depth p2 lat2 lon2 g"
  by (simp add: get_flood_depth_def)


subsection \<open>The table rows and their highlighting\<close>

declare show_nat.simps [simp del]

lemma digit_char_is_digit: "is_digit (digit_char n)"
proof -
  have "n mod 10 < length ''0123456789''" by simp
  then have "''0123456789'' ! (n mod 10) \<in> set ''0123456789''" by (rule nth_mem)
  then show ?thesis by (simp only: is_digit_def digit_char_def)
qed

lemma is_digit_not_minus: "is_digit c \<Longrightarrow> c \<noteq> CHR ''-''"
  by (auto simp: is_digit_def)

lemma show_nat_digits: "show_nat n \<noteq> [] \<and> list_all is_digit (show_nat n)"
proof (induction n rule: show_nat.induct)
  case (1 n)
  show ?case
  proof (cases "n < 10")
    case True
    then show ?thesis by (simp add: show_nat.simps [of n] digit_char_is_digit)
  next
    case False
    then show ?thesis using 1 by (simp add: show_nat.simps [of n] digit_char_is_digit)
  qed
qed

lemma two_decimals_shape:
  assumes "ds \<noteq> []" and "list_all is_digit ds" and "sg = [] \<or> sg = ''-''"
  shows "two_decimals (sg @ ds @ ''.'' @ [digit_char a, digit_char b])"
proof -
  obtain c cs where ds: "ds = c # cs" using assms(1) by (cases ds) auto
  have c: "c \<noteq> CHR ''-''" using assms(2) ds by (simp add: is_digit_not_minus)
  show ?thesis
    using assms(2,3) c by (auto simp: two_decimals_def digit_char_is_digit ds)
qed

lemma format_2f_two_decimals: "two_decimals (format_2f d)"
  unfolding format_2f_def Let_def
  by (rule two_decimals_shape) (simp_all add: show_nat_digits)

lemma make_flood_table_rows_eq:
  "make_flood_table_rows b f =
     [\<lparr>Scenario = ''Baseline'', Flood_Depth = format_2f b,
        Risk_Level = fst (get_risk_class b), Color = snd (get_risk_class b)\<rparr>,
      \<lparr>Scenario = ''RCP8.5'', Flood_Depth = format_2f f,
        Risk_Level = fst (get_risk_class f), Color = snd (get_risk_class f)\<rparr>]"
  by (simp add: make_flood_table_rows_def make_row_def split: prod.split)

text \<open>The printed digits denote the depth rounded to hundredths.\<close>

lemma read_nat_snoc: "read_nat (s @ [c]) = 10 * read_nat s + (of_char c - 48)"
  by (simp add: read_nat_def)

lemma of_char_digit_char: "(of_char (digit_char n) :: nat) - 48 = n mod 10"
proof -
  have all: "list_all (\<lambda>m. (of_char (''0123456789'' ! m) :: nat) - 48 = m) [0..<10]"
    by code_simp
  have "n mod 10 \<in> set [0..<10]" by simp
  then have "(of_char (''0123456789'' ! (n mod 10)) :: nat) - 48 = n mod 10"
    using all unfolding list_all_iff by blast
  then show ?thesis by (simp only: digit_char_def)
qed

lemma read_nat_show_nat: "read_nat (show_nat n) = n"
proof (induction n rule: show_nat.induct)
  case (1 n)
  show ?case
  proof (cases "n < 10")
    case True
    then show ?thesis
      by (simp add: show_nat.simps [of n] read_nat_def of_char_digit_char)
  next
    case False
    then show ?thesis using 1
      by (simp add: show_nat.simps [of n] read_nat_snoc of_char_digit_char)
  qed
qed

lemma is_digit_not_point: "is_digit c \<Longrightarrow> c \<noteq> CHR ''.''"
  by (auto simp: is_digit_def)

lemma filter_digits: "list_all is_digit ds \<Longrightarrow> filter (\<lambda>c. c \<noteq> CHR ''.'') ds = ds"
  by (induction ds) (auto simp: is_digit_not_point)

lemma read_nat_format:
  "read_nat (show_nat (n div 100) @ [digit_char (n div 10), digit_char n]) = n"
proof -
  have "read_nat (show_nat (n div 100) @ [digit_char (n div 10), digit_char n])
          = 10 * (10 * (n div 100) + n div 10 mod 10) + n mod 10"
    using read_nat_snoc [of "show_nat (n div 100) @ [digit_char (n div 10)]" "digit_char n"]
      read_nat_snoc [of "show_nat (n div 100)" "digit_char (n div 10)"]
    by (simp add: read_nat_show_nat of_char_digit_char)
  also have "\<dots> = n"
  proof -
    have a: "n div 100 = n div 10 div 10" using div_mult2_eq [of n 10 10] by simp
    have b: "10 * (n div 10 div 10) + n div 10 mod 10 = n div 10" by simp
    have c: "10 * (n div 10) + n mod 10 = n" by simp
    show ?thesis by (simp only: a b c)
  qed
  finally show ?thesis .
qed

lemma decimal_value_format_2f:
  "decimal_value (format_2f d) = (if d < 0 then - 1 else 1) * of_int (rne (\<bar>d\<bar> * 100)) / 100"
proof -
  define R where "R = rne (\<bar>d\<bar> * 100)"
  define n where "n = nat R"
  have "of_int 0 \<le> \<bar>d\<bar> * 100" by simp
  then have "0 \<le> R" unfolding R_def by (rule rne_ge)
  then have n: "(of_nat n :: rat) = of_int R" by (simp add: n_def)
  define ip where "ip = show_nat (n div 100)"
  have ip: "ip \<noteq> []" "list_all is_digit ip"
    using show_nat_digits [of "n div 100"] by (simp_all add: ip_def)
  obtain c cs where ipc: "ip = c # cs" using ip(1) by (cases ip) auto
  have c: "c \<noteq> CHR ''-''" using ip(2) by (simp add: ipc is_digit_not_minus)
  define body where "body = ip @ ''.'' @ [digit_char (n div 10), digit_char n]"
  have f: "filter (\<lambda>c. c \<noteq> CHR ''.'') body = ip @ [digit_char (n div 10), digit_char n]"
    using ip(2) digit_char_is_digit [of "n div 10"] digit_char_is_digit [of n]
    by (simp add: body_def filter_digits is_digit_not_point)
  have r: "read_nat (filter (\<lambda>c. c \<noteq> CHR ''.'') body) = n"
    unfolding f ip_def by (rule read_nat_format)
  have fmt: "format_2f d = (if d < 0 then ''-'' else []) @ body"
    by (simp add: format_2f_def body_def ip_def n_def R_def Let_def)
  have "decimal_value (format_2f d) = (if d < 0 then - 1 else 1) * of_int R / 100"
  proof (cases "d < 0")
    case True
    then show ?thesis by (simp add: fmt decimal_value_def r n)
  next
    case False
    have "body = c # (cs @ ''.'' @ [digit_char (n div 10), digit_char n])"
      by (simp add: body_def ipc)
    then show ?thesis using False c r by (simp add: fmt decimal_value_def n)
  qed
  then show ?thesis by (simp only: R_def)
qed

lemma format_2f_value: "\<bar>decimal_value (format_2f d) - d\<bar> \<le> 1/200"
proof -
  define R :: rat where "R = of_int (rne (\<bar>d\<bar> * 100))"
  have e: "\<bar>R - \<bar>d\<bar> * 100\<bar> \<le> 1/2" unfolding R_def by (rule rne_err)
  have v: "decimal_value (format_2f d) = (if d < 0 then - 1 else 1) * R / 100"
    by (simp only: decimal_value_format_2f R_def)
  show ?thesis
  proof (cases "d < 0")
    case True
    then have dv: "decimal_value (format_2f d) = - R / 100" by (simp add: v)
    have b: "\<bar>R + d * 100\<bar> \<le> 1/2" using e True by simp
    show ?thesis unfolding dv using b by linarith
  next
    case False
    then have dv: "decimal_value (format_2f d) = R / 100" by (simp add: v)
    have b: "\<bar>R - d * 100\<bar> \<le> 1/2" using e False by simp
    show ?thesis unfolding dv using b by linarith
  qed
qed

text \<open>
  Claim C2. For every pair of depths, \<^verbatim>\<open>make_flood_table_rows\<close> returns exactly two
  rows, the first for the scenario Baseline and the first depth, the second for RCP8.5
  and the second depth; each row carries the depth formatted with exactly two decimal
  places (the string has that shape and denotes the depth to within half a hundredth;
  0.5 becomes \<^verbatim>\<open>0.50\<close>) and the level and the colour that the classifier gives for that
  depth.
\<close>

theorem make_flood_table_rows_correct:
  "make_flood_table_rows b f =
     [\<lparr>Scenario = ''Baseline'', Flood_Depth = format_2f b,
        Risk_Level = fst (get_risk_class b), Color = snd (get_risk_class b)\<rparr>,
      \<lparr>Scenario = ''RCP8.5'', Flood_Depth = format_2f f,
        Risk_Level = fst (get_risk_class f), Color = snd (get_risk_class f)\<rparr>]
   \<and> two_decimals (format_2f b) \<and> two_decimals (format_2f f)
   \<and> \<bar>decimal_value (format_2f b) - b\<bar> \<le> 1/200
   \<and> \<bar>decimal_value (format_2f f) - f\<bar> \<le> 1/200
   \<and> format_2f (1/2) = ''0.50''"
proof -
  have "format_2f (1/2) = ''0.50''" by code_simp
  then show ?thesis
    by (simp only: make_flood_table_rows_eq format_2f_two_decimals format_2f_value simp_thms)
qed

text \<open>
  Claim C10. For every pair of depths and either row \<open>r\<close> of the table built from them,
  \<^verbatim>\<open>highlight_risk\<close> does not fail (the search for the scenario of \<open>r\<close> finds a row)
  and returns three style strings: two empty ones and the bold style in the colour that
  \<open>r\<close> itself carries.
\<close>

theorem highlight_risk_rows:
  assumes "r \<in> set (make_flood_table_rows b f)"
  shows "highlight_risk r (make_flood_table_rows b f)
           = Inr ['''', '''', ''color: '' @ Color r @ ''; font-weight: bold;'']"
  using assms by (auto simp: make_flood_table_rows_eq highlight_risk_def)

theorem highlight_risk_rows_witness:
  "\<lparr>Scenario = ''RCP8.5'', Flood_Depth = ''1.20'', Risk_Level = ''High'', Color = ''#ff595e''\<rparr>
     \<in> set (make_flood_table_rows (3/10) (6/5))
   \<and> highlight_risk
        \<lparr>Scenario = ''RCP8.5'', Flood_Depth = ''1.20'', Risk_Level = ''High'', Color = ''#ff595e''\<rparr>
        (make_flood_table_rows (3/10) (6/5))
       = Inr ['''', '''', ''color: #ff595e; font-weight: bold;'']"
proof -
  have rows: "make_flood_table_rows (3/10) (6/5) =
      [\<lparr>Scenario = ''Baseline'', Flood_Depth = ''0.30'', Risk_Level = ''Low'', Color = ''#50d890''\<rparr>,
       \<lparr>Scenario = ''RCP8.5'', Flood_Depth = ''1.20'', Risk_Level = ''High'', Color = ''#ff595e''\<rparr>]"
    by code_simp
  have m: "\<lparr>Scenario = ''RCP8.5'', Flood_Depth = ''1.20'', Risk_Level = ''High'', Color = ''#ff595e''\<rparr>
     \<in> set (make_flood_table_rows (3/10) (6/5))"
    by (simp add: rows)
  show ?thesis using m highlight_risk_rows [OF m] by simp
qed


subsection \<open>The record store and its cache\<close>

text \<open>
  Claim C5. Initialising the store is idempotent under the cache: when a call of
  \<^verbatim>\<open>load_data\<close> has returned a mapping, the next call (with nothing clearing the cache
  in between) returns the same mapping, leaves the state of the application as it is
  and does not touch the generator. So no flag is drawn again, and every record has the
  flags of the first call, whatever the data file and the generator are by then.
\<close>

theorem load_data_cached_idempotent:
  assumes "fst (load_data_cached src a g) = Inr postal_dict"
    and "a1 = fst (snd (load_data_cached src a g))"
  shows "fst (load_data_cached src' a1 g') = Inr postal_dict
         \<and> fst (snd (load_data_cached src' a1 g')) = a1
         \<and> snd (snd (load_data_cached src' a1 g')) = g'"
proof -
  have "cache a1 = Some postal_dict"
  proof (cases "cache a")
    case (Some d)
    then show ?thesis using assms by (simp add: load_data_cached_def)
  next
    case None
    obtain r g1 where l: "load_data src g = (r, g1)" by (cases "load_data src g")
    show ?thesis using assms None l by (cases r) (simp_all add: load_data_cached_def)
  qed
  then show ?thesis by (simp add: load_data_cached_def)
qed

theorem load_data_cached_idempotent_witness:
  "fst (load_data_cached
          (Inr [[(''POSTAL'', JStr (ustr ''018989'')), (''ADDRESS'', JStr (ustr ''A''))],
                [(''POSTAL'', JStr (ustr ''123456'')), (''ADDRESS'', JStr (ustr ''B''))]])
          \<lparr>cache = None, session_state = \<lparr>postal_search = [], last_search = []\<rparr>\<rparr>
          (\<lambda>n. int n * 2 ^ 50))
     = Inr [(JStr (ustr ''018989''),
              [(''POSTAL'', JStr (ustr ''018989'')), (''ADDRESS'', JStr (ustr ''A'')),
               (''IS_FLOOD_PRONE'', JBool True), (''IS_FLOOD_HOTSPOT'', JBool False)]),
            (JStr (ustr ''123456''),
              [(''POSTAL'', JStr (ustr ''123456'')), (''ADDRESS'', JStr (ustr ''B'')),
               (''IS_FLOOD_PRONE'', JBool False), (''IS_FLOOD_HOTSPOT'', JBool False)])]
   \<and> fst (load_data_cached
          (Inr [[(''POSTAL'', JStr (ustr ''018989'')), (''ADDRESS'', JStr (ustr ''A''))],
                [(''POSTAL'', JStr (ustr ''123456'')), (''ADDRESS'', JStr (ustr ''B''))]])
          (fst (snd (load_data_cached
             (Inr [[(''POSTAL'', JStr (ustr ''018989'')), (''ADDRESS'', JStr (ustr ''A''))],
                   [(''POSTAL'', JStr (ustr ''123456'')), (''ADDRESS'', JStr (ustr ''B''))]])
             \<lparr>cache = None, session_state = \<lparr>postal_search = [], last_search = []\<rparr>\<rparr>
             (\<lambda>n. int n * 2 ^ 50))))
          (\<lambda>n. 0))
     = Inr [(JStr (ustr ''018989''),
              [(''POSTAL'', JStr (ustr ''018989'')), (''ADDRESS'', JStr (ustr ''A'')),
               (''IS_FLOOD_PRONE'', JBool True), (''IS_FLOOD_HOTSPOT'', JBool False)]),
            (JStr (ustr ''123456''),
              [(''POSTAL'', JStr (ustr ''123456'')), (''ADDRESS'', JStr (ustr ''B'')),
               (''IS_FLOOD_PRONE'', JBool False), (''IS_FLOOD_HOTSPOT'', JBool False)])]"
proof -
  have h: "fst (load_data_cached
          (Inr [[(''POSTAL'', JStr (ustr ''018989'')), (''ADDRESS'', JStr (ustr ''A''))],
                [(''POSTAL'', JStr (ustr ''123456'')), (''ADDRESS'', JStr (ustr ''B''))]])
          \<lparr>cache = None, session_state = \<lparr>postal_search = [], last_search = []\<rparr>\<rparr>
          (\<lambda>n. int n * 2 ^ 50))
     = Inr [(JStr (ustr ''018989''),
              [(''POSTAL'', JStr (ustr ''018989'')), (''ADDRESS'', JStr (ustr ''A'')),
               (''IS_FLOOD_PRONE'', JBool True), (''IS_FLOOD_HOTSPOT'', JBool False)]),
            (JStr (ustr ''123456''),
              [(''POSTAL'', JStr (ustr ''123456'')), (''ADDRESS'', JStr (ustr ''B'')),
               (''IS_FLOOD_PRONE'', JBool False), (''IS_FLOOD_HOTSPOT'', JBool False)])]"
    by code_simp
  show ?thesis
    using h load_data_cached_idempotent [OF h refl]
    by blast
qed


subsection \<open>Validation and lookup in \<^verbatim>\<open>main\<close>\<close>

lemma re_match_postal_ascii_digits:
  assumes "length s = 6" and "list_all (\<lambda>c. 48 \<le> c \<and> c \<le> 57) s"
  shows "re_match_postal nd s"
proof -
  have "list_all (re_digit nd) s"
    using assms(2) by (simp add: list_all_iff re_digit_def)
  then show ?thesis using assms(1) by (simp add: re_match_postal_def)
qed

lemma main_initialised:
  assumes "cache a = Some postal_dict"
  shows "load_data_cached src a g = (Inr postal_dict, a, g)"
  using assms by (simp add: load_data_cached_def)

lemma apply_styles_rows:
  "\<exists>styles. apply_styles (make_flood_table_rows b f) (make_flood_table_rows b f) = Inr styles"
  by (simp add: make_flood_table_rows_eq highlight_risk_def)

lemma main_found_showable:
  assumes "showable py_float entry"
  shows "\<exists>page. fst (main_found py_float entry postal_code g) = Inr page \<and> p_entry page = entry"
proof -
  obtain v1 lat where 1: "map_of entry ''LATITUDE'' = Some v1" "py_float v1 = Inr lat"
    using assms by (auto simp: showable_def accepts_def split: option.splits sum.splits)
  obtain v2 lon where 2: "map_of entry ''LONGITUDE'' = Some v2" "py_float v2 = Inr lon"
    using assms by (auto simp: showable_def accepts_def split: option.splits sum.splits)
  obtain fp fh ad rd bd where 3: "map_of entry ''IS_FLOOD_PRONE'' = Some fp"
    "map_of entry ''IS_FLOOD_HOTSPOT'' = Some fh" "map_of entry ''ADDRESS'' = Some ad"
    "map_of entry ''ROAD_NAME'' = Some rd" "map_of entry ''BUILDING'' = Some bd"
    using assms by (auto simp: showable_def)
  obtain d1 d2 g' where 4: "get_flood_depth postal_code lat lon g = ((d1, d2), g')"
    by (metis prod.exhaust)
  obtain styles where 5:
    "apply_styles (make_flood_table_rows d1 d2) (make_flood_table_rows d1 d2) = Inr styles"
    using apply_styles_rows by blast
  show ?thesis
    by (simp add: main_found_def getitem_def Let_def 1 2 3 4 5)
qed

lemma main_found_not_showable:
  assumes "\<not> showable py_float entry"
  shows "\<exists>e. fst (main_found py_float entry postal_code g) = Inl e"
  using assms
  by (auto simp: main_found_def getitem_def showable_def accepts_def Let_def
      split: option.splits sum.splits prod.splits)

lemma found_entry_main_found:
  "found_entry (case fst (main_found py_float entry postal_code g) of
                  Inl e \<Rightarrow> Inl e | Inr page \<Rightarrow> Inr (Found page))
     = (if showable py_float entry then Some entry else None)"
proof (cases "showable py_float entry")
  case True
  then obtain page where "fst (main_found py_float entry postal_code g) = Inr page"
    "p_entry page = entry" using main_found_showable by blast
  then show ?thesis using True by (simp add: found_entry_def)
next
  case False
  then obtain e where "fst (main_found py_float entry postal_code g) = Inl e"
    using main_found_not_showable by blast
  then show ?thesis using False by (simp add: found_entry_def)
qed

lemma main_triggered:
  assumes "cache a = Some postal_dict"
    and "length postal_code = 6"
    and "list_all (\<lambda>c. 48 \<le> c \<and> c \<le> 57) postal_code"
    and "search \<or> postal_code \<noteq> last_search (session_state a)"
  shows "fst (main nd py_float src a g postal_code search)
           = (case map_of postal_dict (JStr postal_code) of
                Some entry \<Rightarrow>
                  (case fst (main_found py_float entry postal_code g) of
                     Inl e \<Rightarrow> Inl e
                   | Inr page \<Rightarrow> Inr (Found page))
              | None \<Rightarrow> Inr NotFound)"
    and "cache (fst (snd (main nd py_float src a g postal_code search))) = Some postal_dict"
proof -
  have m: "re_match_postal nd postal_code"
    using assms(2,3) by (rule re_match_postal_ascii_digits)
  have ne: "postal_code \<noteq> []" using assms(2) by auto
  show "fst (main nd py_float src a g postal_code search)
           = (case map_of postal_dict (JStr postal_code) of
                Some entry \<Rightarrow>
                  (case fst (main_found py_float entry postal_code g) of
                     Inl e \<Rightarrow> Inl e
                   | Inr page \<Rightarrow> Inr (Found page))
              | None \<Rightarrow> Inr NotFound)"
    using assms(1,2,4) m ne
    by (auto simp: main_def main_initialised Let_def split: option.splits prod.splits sum.splits)
  show "cache (fst (snd (main nd py_float src a g postal_code search))) = Some postal_dict"
    using assms(1,2,4) m ne
    by (auto simp: main_def main_initialised Let_def split: option.splits prod.splits sum.splits)
qed

text \<open>
  Claim C4. For every store and every postal code of six ASCII digits, when the lookup
  runs (the button was pressed, or the code is not the one searched last): if the store
  holds a record under the code, the run goes on with exactly that record, and its
  outcome is the page of that record whenever the record has the fields the page shows
  (if not, the run raises the exception of the field that is missing or unreadable);
  if the store does not hold the key, the outcome is NotFound, and only then. NotFound
  is not the outcome InvalidFormat, the run never reports InvalidFormat for such a
  code, and it leaves the store as it was.
\<close>

theorem main_lookup:
  assumes "cache a = Some postal_dict"
    and "length postal_code = 6"
    and "list_all (\<lambda>c. 48 \<le> c \<and> c \<le> 57) postal_code"
    and "search \<or> postal_code \<noteq> last_search (session_state a)"
  shows "fst (main nd py_float src a g postal_code search)
           = (case map_of postal_dict (JStr postal_code) of
                Some entry \<Rightarrow>
                  (case fst (main_found py_float entry postal_code g) of
                     Inl e \<Rightarrow> Inl e
                   | Inr page \<Rightarrow> Inr (Found page))
              | None \<Rightarrow> Inr NotFound)
         \<and> found_entry (fst (main nd py_float src a g postal_code search))
           = (case map_of postal_dict (JStr postal_code) of
                Some entry \<Rightarrow> if showable py_float entry then Some entry else None
              | None \<Rightarrow> None)
         \<and> (fst (main nd py_float src a g postal_code search) = Inr NotFound
              \<longleftrightarrow> map_of postal_dict (JStr postal_code) = None)
         \<and> fst (main nd py_float src a g postal_code search) \<noteq> Inr InvalidFormat
         \<and> (NotFound :: 'f outcome) \<noteq> InvalidFormat
         \<and> cache (fst (snd (main nd py_float src a g postal_code search))) = Some postal_dict"
proof -
  note t = main_triggered [OF assms, of nd py_float src g]
  show ?thesis
  proof (cases "map_of postal_dict (JStr postal_code)")
    case None
    then show ?thesis using t by (simp add: found_entry_def)
  next
    case (Some entry)
    have r: "fst (main nd py_float src a g postal_code search)
               = (case fst (main_found py_float entry postal_code g) of
                    Inl e \<Rightarrow> Inl e | Inr page \<Rightarrow> Inr (Found page))"
      using t(1) by (simp add: Some)
    have f: "found_entry (fst (main nd py_float src a g postal_code search))
               = (if showable py_float entry then Some entry else None)"
      unfolding r by (rule found_entry_main_found)
    have n: "fst (main nd py_float src a g postal_code search) \<noteq> Inr NotFound"
      "fst (main nd py_float src a g postal_code search) \<noteq> Inr InvalidFormat"
      unfolding r by (simp_all split: sum.splits)
    show ?thesis using r f n t(2) by (simp add: Some)
  qed
qed

theorem main_lookup_witness:
  "fst (snd (load_data_cached
       (Inr [[(''POSTAL'', JStr (ustr ''018989'')), (''ADDRESS'', JStr (ustr ''1 MARINA BOULEVARD'')),
              (''ROAD_NAME'', JStr (ustr ''MARINA BOULEVARD'')), (''BUILDING'', JStr (ustr ''NIL'')),
              (''LATITUDE'', JNum (13/10)), (''LONGITUDE'', JNum (519/5))]])
       \<lparr>cache = None, session_state = \<lparr>postal_search = [], last_search = []\<rparr>\<rparr>
       (\<lambda>n. int n * 2 ^ 50)))
     = \<lparr>cache = Some [(JStr (ustr ''018989''),
          [(''POSTAL'', JStr (ustr ''018989'')), (''ADDRESS'', JStr (ustr ''1 MARINA BOULEVARD'')),
           (''ROAD_NAME'', JStr (ustr ''MARINA BOULEVARD'')), (''BUILDING'', JStr (ustr ''NIL'')),
           (''LATITUDE'', JNum (13/10)), (''LONGITUDE'', JNum (519/5)),
           (''IS_FLOOD_PRONE'', JBool True), (''IS_FLOOD_HOTSPOT'', JBool False)])],
        session_state = \<lparr>postal_search = [], last_search = []\<rparr>\<rparr>
   \<and> found_entry (fst (main (\<lambda>c. False)
          (\<lambda>v. case v of JNum r \<Rightarrow> Inr r | JBool b \<Rightarrow> Inr (if b then 1 else 0)
                         | JStr s \<Rightarrow> Inl ValueError | JNull \<Rightarrow> Inl TypeError)
          (Inr [])
          \<lparr>cache = Some [(JStr (ustr ''018989''),
             [(''POSTAL'', JStr (ustr ''018989'')), (''ADDRESS'', JStr (ustr ''1 MARINA BOULEVARD'')),
              (''ROAD_NAME'', JStr (ustr ''MARINA BOULEVARD'')), (''BUILDING'', JStr (ustr ''NIL'')),
              (''LATITUDE'', JNum (13/10)), (''LONGITUDE'', JNum (519/5)),
              (''IS_FLOOD_PRONE'', JBool True), (''IS_FLOOD_HOTSPOT'', JBool False)])],
           session_state = \<lparr>postal_search = [], last_search = []\<rparr>\<rparr>
          (\<lambda>n. 0) (ustr ''018989'') True))
     = Some [(''POSTAL'', JStr (ustr ''018989'')), (''ADDRESS'', JStr (ustr ''1 MARINA BOULEVARD'')),
             (''ROAD_NAME'', JStr (ustr ''MARINA BOULEVARD'')), (''BUILDING'', JStr (ustr ''NIL'')),
             (''LATITUDE'', JNum (13/10)), (''LONGITUDE'', JNum (519/5)),
             (''IS_FLOOD_PRONE'', JBool True), (''IS_FLOOD_HOTSPOT'', JBool False)]
   \<and> fst (main (\<lambda>c. False)
          (\<lambda>v. case v of JNum r \<Rightarrow> Inr r | JBool b \<Rightarrow> Inr (if b then 1 else 0)
                         | JStr s \<Rightarrow> Inl ValueError | JNull \<Rightarrow> Inl TypeError)
          (Inr [])
          \<lparr>cache = Some [(JStr (ustr ''018989''),
             [(''POSTAL'', JStr (ustr ''018989'')), (''ADDRESS'', JStr (ustr ''1 MARINA BOULEVARD'')),
              (''ROAD_NAME'', JStr (ustr ''MARINA BOULEVARD'')), (''BUILDING'', JStr (ustr ''NIL'')),
              (''LATITUDE'', JNum (13/10)), (''LONGITUDE'', JNum (519/5)),
              (''IS_FLOOD_PRONE'', JBool True), (''IS_FLOOD_HOTSPOT'', JBool False)])],
           session_state = \<lparr>postal_search = [], last_search = []\<rparr>\<rparr>
          (\<lambda>n. 0) (ustr ''999999'') False)
     = (Inr NotFound :: py_error + rat outcome)"
proof -
  let ?e = "[(''POSTAL'', JStr (ustr ''018989'')), (''ADDRESS'', JStr (ustr ''1 MARINA BOULEVARD'')),
             (''ROAD_NAME'', JStr (ustr ''MARINA BOULEVARD'')), (''BUILDING'', JStr (ustr ''NIL'')),
             (''LATITUDE'', JNum (13/10)), (''LONGITUDE'', JNum (519/5)),
             (''IS_FLOOD_PRONE'', JBool True), (''IS_FLOOD_HOTSPOT'', JBool False)]"
  let ?d = "[(JStr (ustr ''018989''), ?e)]"
  let ?a = "\<lparr>cache = Some ?d, session_state = \<lparr>postal_search = [], last_search = []\<rparr>\<rparr>"
  let ?pf = "\<lambda>v. case v of JNum r \<Rightarrow> Inr r | JBool b \<Rightarrow> Inr (if b then 1 else 0)
                         | JStr s \<Rightarrow> Inl ValueError | JNull \<Rightarrow> (Inl TypeError :: py_error + rat)"
  have reach: "fst (snd (load_data_cached
       (Inr [[(''POSTAL'', JStr (ustr ''018989'')), (''ADDRESS'', JStr (ustr ''1 MARINA BOULEVARD'')),
              (''ROAD_NAME'', JStr (ustr ''MARINA BOULEVARD'')), (''BUILDING'', JStr (ustr ''NIL'')),
              (''LATITUDE'', JNum (13/10)), (''LONGITUDE'', JNum (519/5))]])
       \<lparr>cache = None, session_state = \<lparr>postal_search = [], last_search = []\<rparr>\<rparr>
       (\<lambda>n. int n * 2 ^ 50))) = ?a"
    by code_simp
  have c: "cache ?a = Some ?d" by simp
  have l1: "length (ustr ''018989'') = 6" and l2: "length (ustr ''999999'') = 6"
    by (simp_all add: ustr_def)
  have d1: "list_all (\<lambda>c. 48 \<le> c \<and> c \<le> 57) (ustr ''018989'')"
    and d2: "list_all (\<lambda>c. 48 \<le> c \<and> c \<le> 57) (ustr ''999999'')"
    by (simp_all add: ustr_def)
  have t1: "True \<or> ustr ''018989'' \<noteq> last_search (session_state ?a)" by simp
  have t2: "False \<or> ustr ''999999'' \<noteq> last_search (session_state ?a)"
    by (simp add: ustr_def)
  have s: "showable ?pf ?e" by (simp add: showable_def accepts_def)
  have f: "map_of ?d (JStr (ustr ''018989'')) = Some ?e" by simp
  have n: "map_of ?d (JStr (ustr ''999999'')) = None" by (simp add: ustr_def)
  show ?thesis
    using reach
      main_lookup [OF c l1 d1 t1, of "\<lambda>c. False" ?pf "Inr []" "\<lambda>n. 0"]
      main_lookup [OF c l2 d2 t2, of "\<lambda>c. False" ?pf "Inr []" "\<lambda>n. 0"]
    unfolding f n option.case if_P [OF s]
    by blast
qed

text \<open>
  One run in full, on the state of the witness: the generator draws 0.25 and 0.75, so the
  depths are 0.375 and 1.125.
\<close>

lemma depths_example:
  "fst (get_flood_depth postal_code lat lon (\<lambda>n. int n * 2 ^ 52 + 2 ^ 51)) = (3/8, 9/8)"
  by code_simp

lemma rows_example:
  "make_flood_table_rows (3/8) (9/8) =
     [\<lparr>Scenario = ''Baseline'', Flood_Depth = ''0.38'', Risk_Level = ''Low'', Color = ''#50d890''\<rparr>,
      \<lparr>Scenario = ''RCP8.5'', Flood_Depth = ''1.12'', Risk_Level = ''High'', Color = ''#ff595e''\<rparr>]"
  by code_simp

lemma main_example:
  "fst (main nd
          (\<lambda>v. case v of JNum r \<Rightarrow> Inr r | JBool b \<Rightarrow> Inr (if b then 1 else 0)
                         | JStr s \<Rightarrow> Inl ValueError | JNull \<Rightarrow> Inl TypeError)
          src
          \<lparr>cache = Some [(JStr (ustr ''018989''),
          [(''POSTAL'', JStr (ustr ''018989'')), (''ADDRESS'', JStr (ustr ''1 MARINA BOULEVARD'')),
           (''ROAD_NAME'', JStr (ustr ''MARINA BOULEVARD'')), (''BUILDING'', JStr (ustr ''NIL'')),
           (''LATITUDE'', JNum (13/10)), (''LONGITUDE'', JNum (519/5)),
           (''IS_FLOOD_PRONE'', JBool True), (''IS_FLOOD_HOTSPOT'', JBool False)])],
      session_state = \<lparr>postal_search = [], last_search = []\<rparr>\<rparr>
          (\<lambda>n. int n * 2 ^ 52 + 2 ^ 51) (ustr ''018989'') True)
   = Inr (Found \<lparr>p_entry = [(''POSTAL'', JStr (ustr ''018989'')), (''ADDRESS'', JStr (ustr ''1 MARINA BOULEVARD'')),
           (''ROAD_NAME'', JStr (ustr ''MARINA BOULEVARD'')), (''BUILDING'', JStr (ustr ''NIL'')),
           (''LATITUDE'', JNum (13/10)), (''LONGITUDE'', JNum (519/5)),
           (''IS_FLOOD_PRONE'', JBool True), (''IS_FLOOD_HOTSPOT'', JBool False)],
        p_lat = 13/10, p_lon = 519/5,
        p_rows = [\<lparr>Scenario = ''Baseline'', Flood_Depth = ''0.38'', Risk_Level = ''Low'', Color = ''#50d890''\<rparr>,
                  \<lparr>Scenario = ''RCP8.5'', Flood_Depth = ''1.12'', Risk_Level = ''High'', Color = ''#ff595e''\<rparr>],
        p_table = [(''Baseline'', ''0.38'', ''Low''), (''RCP8.5'', ''1.12'', ''High'')],
        p_flood_prone = True, p_flood_hotspot = False,
        p_address = JStr (ustr ''1 MARINA BOULEVARD''), p_road = JStr (ustr ''MARINA BOULEVARD''),
        p_building = JStr (ustr ''N/A''),
        p_styles = [[[], [], ''color: #50d890; font-weight: bold;''],
                    [[], [], ''color: #ff595e; font-weight: bold;'']],
        p_popup_risk = ''High'', p_circle = (''High'', ''#ff595e'')\<rparr>)"
proof -
  define G :: rng where "G = (\<lambda>n. int n * 2 ^ 52 + 2 ^ 51)"
  have d: "fst (get_flood_depth postal_code lat lon G) = (3/8, 9/8)" for postal_code :: ustring and lat lon :: rat
    unfolding G_def by (rule depths_example)
  have m: "re_match_postal nd (ustr ''018989'')"
    by (simp add: re_match_postal_def re_digit_def ustr_def)
  have "fst (main nd
          (\<lambda>v. case v of JNum r \<Rightarrow> Inr r | JBool b \<Rightarrow> Inr (if b then 1 else 0)
                         | JStr s \<Rightarrow> Inl ValueError | JNull \<Rightarrow> Inl TypeError)
          src
          \<lparr>cache = Some [(JStr (ustr ''018989''),
          [(''POSTAL'', JStr (ustr ''018989'')), (''ADDRESS'', JStr (ustr ''1 MARINA BOULEVARD'')),
           (''ROAD_NAME'', JStr (ustr ''MARINA BOULEVARD'')), (''BUILDING'', JStr (ustr ''NIL'')),
           (''LATITUDE'', JNum (13/10)), (''LONGITUDE'', JNum (519/5)),
           (''IS_FLOOD_PRONE'', JBool True), (''IS_FLOOD_HOTSPOT'', JBool False)])],
      session_state = \<lparr>postal_search = [], last_search = []\<rparr>\<rparr>
          G (ustr ''018989'') True)
   = Inr (Found \<lparr>p_entry = [(''POSTAL'', JStr (ustr ''018989'')), (''ADDRESS'', JStr (ustr ''1 MARINA BOULEVARD'')),
           (''ROAD_NAME'', JStr (ustr ''MARINA BOULEVARD'')), (''BUILDING'', JStr (ustr ''NIL'')),
           (''LATITUDE'', JNum (13/10)), (''LONGITUDE'', JNum (519/5)),
           (''IS_FLOOD_PRONE'', JBool True), (''IS_FLOOD_HOTSPOT'', JBool False)],
        p_lat = 13/10, p_lon = 519/5,
        p_rows = [\<lparr>Scenario = ''Baseline'', Flood_Depth = ''0.38'', Risk_Level = ''Low'', Color = ''#50d890''\<rparr>,
                  \<lparr>Scenario = ''RCP8.5'', Flood_Depth = ''1.12'', Risk_Level = ''High'', Color = ''#ff595e''\<rparr>],
        p_table = [(''Baseline'', ''0.38'', ''Low''), (''RCP8.5'', ''1.12'', ''High'')],
        p_flood_prone = True, p_flood_hotspot = False,
        p_address = JStr (ustr ''1 MARINA BOULEVARD''), p_road = JStr (ustr ''MARINA BOULEVARD''),
        p_building = JStr (ustr ''N/A''),
        p_styles = [[[], [], ''color: #50d890; font-weight: bold;''],
                    [[], [], ''color: #ff595e; font-weight: bold;'']],
        p_popup_risk = ''High'', p_circle = (''High'', ''#ff595e'')\<rparr>)"
    using m
    by (simp add: main_def load_data_cached_def main_found_def getitem_def Let_def split_beta
        d rows_example highlight_risk_def truthy_def get_risk_class_def)
       (simp add: ustr_def)
  then show ?thesis by (simp only: G_def)
qed

text \<open>
  On ASCII input of at most six characters (the input box takes no more) the validation
  is the one the specification describes, and it decides the examples of the claim as
  the claim says.
\<close>

lemma re_digit_ascii: "c < 128 \<Longrightarrow> re_digit nd c \<longleftrightarrow> 48 \<le> c \<and> c \<le> 57"
  by (auto simp: re_digit_def)

lemma re_match_postal_ascii:
  assumes "list_all (\<lambda>c. c < 128) s" and "length s \<le> 6"
  shows "re_match_postal nd s \<longleftrightarrow> length s = 6 \<and> list_all (\<lambda>c. 48 \<le> c \<and> c \<le> 57) s"
proof -
  have "list_all (re_digit nd) s \<longleftrightarrow> list_all (\<lambda>c. 48 \<le> c \<and> c \<le> 57) s"
    using assms(1) by (induction s) (simp_all add: re_digit_ascii)
  then show ?thesis using assms(2) by (auto simp: re_match_postal_def)
qed

lemma postal_examples:
  "\<not> re_match_postal nd (ustr ''12345'')
   \<and> \<not> re_match_postal nd (ustr ''abcdef'')
   \<and> \<not> re_match_postal nd (ustr ''1234567'')
   \<and> \<not> re_match_postal nd (ustr '' 018989'')
   \<and> re_match_postal nd (ustr ''018989'')"
  by (simp add: re_match_postal_def re_digit_def ustr_def)

text \<open>
  Claim C3 says that the validation accepts exactly the strings of six ASCII digits.
  The source does not: \<^verbatim>\<open>$\<close> lets one newline follow the six digits, and \<^verbatim>\<open>\d\<close>
  takes the decimal digits of every script. Both inputs pass the validation and reach
  the lookup, which answers NotFound where the claim wants InvalidFormat. The second
  input is stated for every table \<open>nd\<close> that holds the code point 1633 (ARABIC-INDIC
  DIGIT ONE), as the table of Unicode does.
\<close>

theorem postal_validation_gap:
  "re_match_postal nd (ustr ''018989'' @ [10])
   \<and> fst (main nd py_float src
            \<lparr>cache = Some [], session_state = \<lparr>postal_search = [], last_search = []\<rparr>\<rparr>
            g (ustr ''018989'' @ [10]) True) = Inr NotFound
   \<and> (nd 1633 \<longrightarrow>
        re_match_postal nd (replicate 6 1633)
        \<and> fst (main nd py_float src
                 \<lparr>cache = Some [], session_state = \<lparr>postal_search = [], last_search = []\<rparr>\<rparr>
                 g (replicate 6 1633) False) = Inr NotFound)"
proof -
  have nl: "re_match_postal nd (ustr ''018989'' @ [10])"
    by (simp add: re_match_postal_def re_digit_def ustr_def)
  have r6: "replicate 6 (1633::nat) = [1633, 1633, 1633, 1633, 1633, 1633]"
    by (simp add: numeral_eq_Suc)
  have ar: "re_match_postal nd (replicate 6 1633)" if "nd 1633"
    using that by (simp add: r6 re_match_postal_def re_digit_def)
  have m1: "fst (main nd py_float src
            \<lparr>cache = Some [], session_state = \<lparr>postal_search = [], last_search = []\<rparr>\<rparr>
            g (ustr ''018989'' @ [10]) True) = Inr NotFound"
    using nl by (simp add: main_def load_data_cached_def Let_def)
  have m2: "fst (main nd py_float src
                 \<lparr>cache = Some [], session_state = \<lparr>postal_search = [], last_search = []\<rparr>\<rparr>
                 g (replicate 6 1633) False) = Inr NotFound" if "nd 1633"
    using ar [OF that] by (simp add: main_def load_data_cached_def Let_def r6)
  show ?thesis using nl m1 ar m2 by blast
qed

theorem postal_validation_gap_witness:
  "(1632 \<le> (1633::nat) \<and> (1633::nat) \<le> 1641)
   \<and> re_match_postal (\<lambda>c. 1632 \<le> c \<and> c \<le> 1641) (replicate 6 1633)
   \<and> fst (main (\<lambda>c. 1632 \<le> c \<and> c \<le> 1641) (\<lambda>v. (Inl TypeError :: py_error + rat)) (Inr [])
            \<lparr>cache = Some [], session_state = \<lparr>postal_search = [], last_search = []\<rparr>\<rparr>
            (\<lambda>n. 0) (replicate 6 1633) False) = Inr NotFound"
  using postal_validation_gap [where nd = "\<lambda>c. 1632 \<le> c \<and> c \<le> 1641"
      and py_float = "\<lambda>v. (Inl TypeError :: py_error + rat)" and src = "Inr []" and g = "\<lambda>n. 0"]
  by simp


subsection \<open>The contrast helper\<close>

text \<open>
  The rounding errors of the luminance add up to less than \<open>2 powi (- 43)\<close>, while two
  different values of the exact luminance are at least \<open>1 / 255000\<close> apart: rounding can
  change the side of 0.5 only when the exact luminance is 0.5.
\<close>

lemma ulp44_bounds: "0 < ulp44" "ulp44 \<le> 1 / 10000000000000" "255 * 2 powi (- 53) \<le> ulp44"
  by (simp_all add: ulp44_def power_int_minus_divide)

lemma fl_err_512: "\<bar>x\<bar> \<le> 512 \<Longrightarrow> \<bar>fl x - x\<bar> \<le> ulp44"
  using fl_abs_err [of x 9] by (simp add: ulp44_def)

lemma fl_err_1: "\<bar>x\<bar> \<le> 1 \<Longrightarrow> \<bar>fl x - x\<bar> \<le> 2 powi (- 53)"
  using fl_abs_err [of x 0] by simp

lemma term_err:
  assumes k: "0 \<le> k" "k \<le> 1" and n: "0 \<le> n" "n \<le> 255"
  shows "\<bar>fmul (fl k) n - k * n\<bar> \<le> 2 * ulp44"
proof -
  define c where "c = fl k"
  have ck: "\<bar>c - k\<bar> \<le> 2 powi (- 53)" unfolding c_def using k by (intro fl_err_1) simp
  have "\<bar>c * n - k * n\<bar> = \<bar>c - k\<bar> * n"
    using n by (simp add: abs_mult flip: left_diff_distrib)
  also have "\<dots> \<le> 2 powi (- 53) * 255"
    using ck n by (intro mult_mono) simp_all
  finally have d: "\<bar>c * n - k * n\<bar> \<le> ulp44" using ulp44_bounds(3) by simp
  have "k * n \<le> 1 * 255" using k n by (intro mult_mono) simp_all
  moreover have "0 \<le> k * n" using k n by simp
  ultimately have "\<bar>c * n\<bar> \<le> 512" using d ulp44_bounds(1,2) by linarith
  then have "\<bar>fl (c * n) - c * n\<bar> \<le> ulp44" by (rule fl_err_512)
  then show ?thesis using d by (simp add: fmul_def c_def)
qed

lemma luminance_err:
  assumes "0 \<le> r" "r \<le> 255" "0 \<le> g" "g \<le> 255" "0 \<le> b" "b \<le> 255"
  shows "\<bar>luminance r g b
          - (299/1000 * of_int r + 587/1000 * of_int g + 114/1000 * of_int b) / 255\<bar>
         \<le> 2 * ulp44"
proof -
  define r' g' b' :: rat where "r' = of_int r" and "g' = of_int g" and "b' = of_int b"
  have rb: "0 \<le> r'" "r' \<le> 255" and gb: "0 \<le> g'" "g' \<le> 255" and bb: "0 \<le> b'" "b' \<le> 255"
    using assms by (simp_all add: r'_def g'_def b'_def)
  define p1 p2 p3 where "p1 = fmul (fl (299/1000)) r'" and "p2 = fmul (fl (587/1000)) g'"
    and "p3 = fmul (fl (114/1000)) b'"
  have e1: "\<bar>p1 - 299/1000 * r'\<bar> \<le> 2 * ulp44"
    unfolding p1_def using rb by (intro term_err) simp_all
  have e2: "\<bar>p2 - 587/1000 * g'\<bar> \<le> 2 * ulp44"
    unfolding p2_def using gb by (intro term_err) simp_all
  have e3: "\<bar>p3 - 114/1000 * b'\<bar> \<le> 2 * ulp44"
    unfolding p3_def using bb by (intro term_err) simp_all
  note u = ulp44_bounds(1,2)
  define s1 where "s1 = fl (p1 + p2)"
  have "\<bar>p1 + p2\<bar> \<le> 512" using e1 e2 rb gb u by linarith
  then have f1: "\<bar>s1 - (p1 + p2)\<bar> \<le> ulp44" unfolding s1_def by (rule fl_err_512)
  define s2 where "s2 = fl (s1 + p3)"
  have "\<bar>s1 + p3\<bar> \<le> 512" using f1 e1 e2 e3 rb gb bb u by linarith
  then have f2: "\<bar>s2 - (s1 + p3)\<bar> \<le> ulp44" unfolding s2_def by (rule fl_err_512)
  define S where "S = 299/1000 * r' + 587/1000 * g' + 114/1000 * b'"
  have S: "0 \<le> S" "S \<le> 255" using rb gb bb by (simp_all add: S_def)
  have f3: "\<bar>s2 - S\<bar> \<le> 8 * ulp44" using f1 f2 e1 e2 e3 unfolding S_def by linarith
  define q where "q = fl (s2 / 255)"
  have "\<bar>s2\<bar> \<le> 512" using f3 S u by linarith
  then have "\<bar>s2 / 255\<bar> \<le> 512" by simp
  then have f4: "\<bar>q - s2 / 255\<bar> \<le> ulp44" unfolding q_def by (rule fl_err_512)
  have "\<bar>s2 / 255 - S / 255\<bar> = \<bar>s2 - S\<bar> / 255"
    by (simp flip: diff_divide_distrib)
  also have "\<dots> \<le> 8 * ulp44 / 255" using f3 by (simp add: divide_right_mono)
  finally have f5: "\<bar>s2 / 255 - S / 255\<bar> \<le> ulp44" using u by linarith
  have "\<bar>q - S / 255\<bar> \<le> 2 * ulp44" using f4 f5 by linarith
  moreover have "luminance r g b = q"
    by (simp add: luminance_def q_def s2_def s1_def p1_def p2_def p3_def fadd_def fdiv_def
        r'_def g'_def b'_def)
  ultimately show ?thesis by (simp add: S_def r'_def g'_def b'_def)
qed

lemma luminance_side:
  assumes "0 \<le> r" "r \<le> 255" "0 \<le> g" "g \<le> 255" "0 \<le> b" "b \<le> 255"
    and "299 * r + 587 * g + 114 * b \<noteq> 127500"
  shows "1/2 < luminance r g b \<longleftrightarrow> 127500 < 299 * r + 587 * g + 114 * b"
proof -
  define N where "N = 299 * r + 587 * g + 114 * b"
  define L :: rat where "L = (299/1000 * of_int r + 587/1000 * of_int g + 114/1000 * of_int b) / 255"
  have L: "L = of_int N / 255000" by (simp add: L_def N_def)
  have e: "\<bar>luminance r g b - L\<bar> \<le> 2 * ulp44"
    unfolding L_def using assms(1-6) by (rule luminance_err)
  note u = ulp44_bounds(1,2)
  show ?thesis
  proof (cases "127500 < N")
    case True
    then have "127501 \<le> N" by simp
    then have "(of_int 127501 :: rat) \<le> of_int N" by (simp only: of_int_le_iff)
    then have "127501 / 255000 \<le> L" by (simp add: L)
    then have "1/2 < luminance r g b" using e u by linarith
    then show ?thesis using True by (simp add: N_def)
  next
    case False
    then have "N \<le> 127499" using assms(7) by (simp add: N_def)
    then have "(of_int N :: rat) \<le> of_int 127499" by (simp only: of_int_le_iff)
    then have "L \<le> 127499 / 255000" by (simp add: L)
    then have "\<not> 1/2 < luminance r g b" using e u by linarith
    then show ?thesis using False by (simp add: N_def)
  qed
qed

lemma is_hex_facts:
  assumes "is_hex c"
  shows "\<not> py_isspace c" and "c \<noteq> CHR ''-''" and "c \<noteq> CHR ''+''"
    and "hex_digit c = Some (the (hex_digit c))" and "the (hex_digit c) < 16"
proof -
  define n where "n = (of_char c :: nat)"
  have n: "48 \<le> n \<and> n \<le> 57 \<or> 97 \<le> n \<and> n \<le> 102 \<or> 65 \<le> n \<and> n \<le> 70"
    using assms by (auto simp: is_hex_def hex_digit_def n_def Let_def split: if_splits)
  show "\<not> py_isspace c" using n by (auto simp: py_isspace_def n_def)
  show "c \<noteq> CHR ''-''" using n by (auto simp: n_def)
  show "c \<noteq> CHR ''+''" using n by (auto simp: n_def)
  show "hex_digit c = Some (the (hex_digit c))" using assms by (auto simp: is_hex_def)
  show "the (hex_digit c) < 16"
    using n by (auto simp: hex_digit_def n_def Let_def)
qed

lemma int16_two_hex:
  assumes "is_hex a" and "is_hex b"
  shows "int16 [a, b] = Inr (int (16 * the (hex_digit a) + the (hex_digit b)))"
proof -
  obtain da db where d: "hex_digit a = Some da" "hex_digit b = Some db"
    using assms by (auto simp: is_hex_def)
  have s: "strip [a, b] = [a, b]"
    using is_hex_facts(1) [OF assms(1)] is_hex_facts(1) [OF assms(2)]
    by (simp add: strip_def)
  have h: "hex_digits 0 [a, b] = Some (16 * da + db)"
    by (simp add: d)
  show ?thesis
    using is_hex_facts(2,3) [OF assms(1)]
    by (simp add: int16_def s h d)
qed

lemma hex_color_cases:
  assumes "is_hex_color s"
  obtains a1 a2 b1 b2 c1 c2 where "s = [CHR ''#'', a1, a2, b1, b2, c1, c2]"
    and "is_hex a1" "is_hex a2" "is_hex b1" "is_hex b2" "is_hex c1" "is_hex c2"
proof -
  from assms have l: "length s = 7" by (simp add: is_hex_color_def)
  then obtain h a1 a2 b1 b2 c1 c2 where s: "s = [h, a1, a2, b1, b2, c1, c2]"
    by (auto simp: length_Suc_conv numeral_eq_Suc)
  with assms show ?thesis by (intro that [of a1 a2 b1 b2 c1 c2]) (simp_all add: is_hex_color_def)
qed

lemma get_text_color_hex:
  assumes "is_hex_color s"
  shows "get_text_color s =
           Inr (if 1/2 < luminance (channel s 1) (channel s 3) (channel s 5)
                then ''black'' else ''white'')"
    and "0 \<le> channel s 1 \<and> channel s 1 \<le> 255"
    and "0 \<le> channel s 3 \<and> channel s 3 \<le> 255"
    and "0 \<le> channel s 5 \<and> channel s 5 \<le> 255"
proof -
  from assms obtain a1 a2 b1 b2 c1 c2 where s: "s = [CHR ''#'', a1, a2, b1, b2, c1, c2]"
    and h: "is_hex a1" "is_hex a2" "is_hex b1" "is_hex b2" "is_hex c1" "is_hex c2"
    by (rule hex_color_cases)
  have sl: "slice s 1 3 = [a1, a2]" "slice s 3 5 = [b1, b2]" "slice s 5 7 = [c1, c2]"
    by (simp_all add: s slice_def)
  have ch: "channel s 1 = int (16 * the (hex_digit a1) + the (hex_digit a2))"
    "channel s 3 = int (16 * the (hex_digit b1) + the (hex_digit b2))"
    "channel s 5 = int (16 * the (hex_digit c1) + the (hex_digit c2))"
    by (simp_all add: s channel_def numeral_eq_Suc)
  show "get_text_color s =
           Inr (if 1/2 < luminance (channel s 1) (channel s 3) (channel s 5)
                then ''black'' else ''white'')"
    by (simp only: get_text_color_def sl int16_two_hex h ch sum.case)
  show "0 \<le> channel s 1 \<and> channel s 1 \<le> 255"
    unfolding ch(1) using is_hex_facts(5) [OF h(1)] is_hex_facts(5) [OF h(2)] by simp
  show "0 \<le> channel s 3 \<and> channel s 3 \<le> 255"
    unfolding ch(2) using is_hex_facts(5) [OF h(3)] is_hex_facts(5) [OF h(4)] by simp
  show "0 \<le> channel s 5 \<and> channel s 5 \<le> 255"
    unfolding ch(3) using is_hex_facts(5) [OF h(5)] is_hex_facts(5) [OF h(6)] by simp
qed

lemma spec_luminance_int:
  "spec_luminance s
     = of_int (299 * channel s 1 + 587 * channel s 3 + 114 * channel s 5) / 255000"
  by (simp add: spec_luminance_def)

text \<open>
  Claim C7 reads the luminance as the exact number \<open>L\<close>. The source computes it in
  binary64 arithmetic, and at the colour \<^verbatim>\<open>#da3af8\<close> the two part: \<open>L\<close> is exactly 0.5,
  which asks for white, while the rounded sum is above 127.5 and the helper answers
  black.
\<close>

theorem get_text_color_tie:
  "is_hex_color ''#da3af8'' \<and> spec_luminance ''#da3af8'' = 1/2
   \<and> spec_text_color ''#da3af8'' = ''white''
   \<and> get_text_color ''#da3af8'' = Inr ''black''
   \<and> get_text_color ''#da3af8'' \<noteq> Inr (spec_text_color ''#da3af8'')"
proof -
  have 1: "is_hex_color ''#da3af8''" by code_simp
  have 2: "spec_luminance ''#da3af8'' = 1/2" by code_simp
  have 3: "get_text_color ''#da3af8'' = Inr ''black''" by code_simp
  have 4: "spec_text_color ''#da3af8'' = ''white''" by (simp add: spec_text_color_def 2)
  show ?thesis by (simp add: 1 2 3 4)
qed

text \<open>
  Claim C7, amended. For every colour \<^verbatim>\<open>#rrggbb\<close> of six hexadecimal digits the helper
  does not raise and returns black when the luminance computed in binary64 arithmetic is
  above 0.5, white otherwise. Whenever the exact luminance \<open>L\<close> is not 0.5 itself this is
  the answer of the exact formula: black when \<open>L > 0.5\<close>, white otherwise. In particular
  the answers for \<^verbatim>\<open>#50d890\<close> and \<^verbatim>\<open>#ff595e\<close> are those of the formula.
\<close>

theorem get_text_color_contrast:
  assumes "is_hex_color s"
  shows "get_text_color s =
           Inr (if 1/2 < luminance (channel s 1) (channel s 3) (channel s 5)
                then ''black'' else ''white'')
         \<and> (spec_luminance s \<noteq> 1/2 \<longrightarrow> get_text_color s = Inr (spec_text_color s))
         \<and> get_text_color ''#50d890'' = Inr (spec_text_color ''#50d890'')
         \<and> get_text_color ''#ff595e'' = Inr (spec_text_color ''#ff595e'')"
proof -
  define N where "N = 299 * channel s 1 + 587 * channel s 3 + 114 * channel s 5"
  have L: "spec_luminance s = of_int N / 255000" by (simp add: spec_luminance_int N_def)
  have agree: "get_text_color s = Inr (spec_text_color s)" if "spec_luminance s \<noteq> 1/2"
  proof -
    have "N \<noteq> 127500" using that by (auto simp: L)
    then have "1/2 < luminance (channel s 1) (channel s 3) (channel s 5) \<longleftrightarrow> 127500 < N"
      unfolding N_def using get_text_color_hex(2-4) [OF assms] by (intro luminance_side) simp_all
    moreover have "1/2 < spec_luminance s \<longleftrightarrow> 127500 < N"
    proof -
      have "1/2 < spec_luminance s \<longleftrightarrow> (of_int 127500 :: rat) < of_int N" by (simp add: L)
      then show ?thesis by (simp only: of_int_less_iff)
    qed
    ultimately show ?thesis
      by (simp add: get_text_color_hex(1) [OF assms] spec_text_color_def)
  qed
  have a: "get_text_color ''#50d890'' = Inr (spec_text_color ''#50d890'')" by code_simp
  have b: "get_text_color ''#ff595e'' = Inr (spec_text_color ''#ff595e'')" by code_simp
  show ?thesis using get_text_color_hex(1) [OF assms] agree a b by blast
qed

theorem get_text_color_contrast_witness:
  "is_hex_color ''#50d890'' \<and> spec_luminance ''#50d890'' \<noteq> 1/2
   \<and> get_text_color ''#50d890'' = Inr (spec_text_color ''#50d890'')
   \<and> spec_text_color ''#50d890'' = ''black''"
proof -
  have h: "is_hex_color ''#50d890''" by code_simp
  have n: "spec_luminance ''#50d890'' \<noteq> 1/2" by code_simp
  have b: "spec_text_color ''#50d890'' = ''black''" by code_simp
  show ?thesis using h n b get_text_color_contrast [OF h] by blast
qed

end
